theory Spec2Isabelle
  imports Main "HOL-Library.AList" "HOL-Library.Multiset"
begin

section \<open>Python values, exceptions and dictionaries\<close>

text \<open>
  The exceptions of \<^verbatim>\<open>junit_xml_parser.py\<close> are values. The text of a
  \<^verbatim>\<open>JUnitXMLValidationError\<close> is kept as a structured message: one constructor per
  message of the source, carrying what the f-string interpolates.
\<close>

type_synonym metadata = "(string option \<times> string) list"

datatype error =
    JUnitXMLValidationError message
  | ValueError
  | TypeError
  | KeyError string
  | AttributeError
  | XMLLibraryError string
and message =
    StreamTooLarge
  | CouldNotParseStream error
  | FileNotFound
  | FileTooLarge
  | CouldNotParse string error
  | DirectoryTooLarge
  | MetadataDiffers string string metadata metadata
  | TagNotFound
  | FieldNotFound string
  | InvalidType string "string option"
  | DuplicateElement string
  | NoValueField string
  | MissingMetadata
  | AttributeNotFound string string

text \<open>
  The values a parsed test case holds: strings, the boolean error flag, and
  \<^verbatim>\<open>None\<close> (what \<^verbatim>\<open>Element.get\<close> gives for an attribute that is absent).
\<close>

datatype pyval = PStr string | PBool bool | PNone

text \<open>
  A \<^verbatim>\<open>dict\<close> is an association list in insertion order. \<^const>\<open>AList.update\<close> is
  \<^verbatim>\<open>d[k] = v\<close>: it replaces the value of a key that is present, in place, and appends a
  new key at the end. \<^const>\<open>map_of\<close> is the lookup.
\<close>

definition getitem :: "(string \<times> 'v) list \<Rightarrow> string \<Rightarrow> error + 'v" where
  "getitem d k = (case map_of d k of None \<Rightarrow> Inl (KeyError k) | Some v \<Rightarrow> Inr v)"

section \<open>ElementTree elements\<close>

text \<open>
  An element has a tag, an attribute dictionary and child elements. \<^verbatim>\<open>find(tag)\<close> is the
  first direct child with that tag or \<^verbatim>\<open>None\<close>; \<^verbatim>\<open>iterfind(tag)\<close> and
  \<^verbatim>\<open>findall(tag)\<close> are all direct children with that tag, in document order. The truth
  value of an element is that it has children (\<^verbatim>\<open>len(element) != 0\<close>), so
  \<^verbatim>\<open>if not properties_element\<close> holds for \<^verbatim>\<open>None\<close> and for an element without children.
\<close>

datatype element = Element (tag: string) (attrib: "(string \<times> string) list") (children: "element list")

definition el_find :: "string \<Rightarrow> element \<Rightarrow> element option" where
  "el_find path e = List.find (\<lambda>c. tag c = path) (children e)"

definition el_iterfind :: "string \<Rightarrow> element \<Rightarrow> element list" where
  "el_iterfind path e = filter (\<lambda>c. tag c = path) (children e)"

definition el_get :: "element \<Rightarrow> string \<Rightarrow> string option" where
  "el_get e k = map_of (attrib e) k"

definition el_keys :: "element \<Rightarrow> string list" where
  "el_keys e = map fst (attrib e)"

section \<open>Python numbers: \<^verbatim>\<open>int\<close>, \<^verbatim>\<open>float\<close>, their parsers and \<^verbatim>\<open>str\<close>\<close>

text \<open>
  Strings are byte strings; whitespace and digits are the ASCII ones (the whitespace
  characters of \<^verbatim>\<open>str.isspace\<close> below 128). \<^verbatim>\<open>int(s)\<close> and \<^verbatim>\<open>float(s)\<close> strip
  surrounding whitespace, allow single underscores between digits and raise
  \<^verbatim>\<open>ValueError\<close> on anything else that is not a number.
\<close>

definition py_isspace :: "char \<Rightarrow> bool" where
  "py_isspace c = ((of_char c :: nat) \<in> {9, 10, 11, 12, 13, 28, 29, 30, 31, 32})"

definition py_strip :: "string \<Rightarrow> string" where
  "py_strip s = rev (dropWhile py_isspace (rev (dropWhile py_isspace s)))"

definition is_digit :: "char \<Rightarrow> bool" where
  "is_digit c = (48 \<le> (of_char c :: nat) \<and> (of_char c :: nat) \<le> 57)"

definition digit_val :: "char \<Rightarrow> nat" where
  "digit_val c = of_char c - 48"

definition digits_val :: "string \<Rightarrow> nat" where
  "digits_val ds = foldl (\<lambda>a c. 10 * a + digit_val c) 0 ds"

definition digit_char :: "nat \<Rightarrow> char" where
  "digit_char d = char_of (48 + d)"

fun digits_of :: "nat \<Rightarrow> string" where
  "digits_of n =
     (if n < 10 then [digit_char n] else digits_of (n div 10) @ [digit_char (n mod 10)])"

declare digits_of.simps [simp del]

definition str_int :: "int \<Rightarrow> string" where
  "str_int i = (if i < 0 then CHR ''-'' # digits_of (nat (- i)) else digits_of (nat i))"

text \<open>
  Removing the underscores of a numeric literal: an underscore must follow a digit and be
  followed by a digit. The first argument is the previous character.
\<close>

fun strip_underscores :: "char \<Rightarrow> string \<Rightarrow> string option" where
  "strip_underscores prev [] = (if prev = CHR ''_'' then None else Some [])"
| "strip_underscores prev (c # cs) =
     (if c = CHR ''_''
      then (if is_digit prev then strip_underscores c cs else None)
      else if prev = CHR ''_'' \<and> \<not> is_digit c then None
      else map_option ((#) c) (strip_underscores c cs))"

definition split_sign :: "string \<Rightarrow> bool \<times> string" where
  "split_sign s =
     (case s of
        [] \<Rightarrow> (False, [])
      | c # cs \<Rightarrow> if c = CHR ''-'' then (True, cs) else if c = CHR ''+'' then (False, cs)
                 else (False, s))"

definition py_int_str :: "string \<Rightarrow> error + int" where
  "py_int_str s =
     (case strip_underscores (CHR 0x00) (py_strip s) of
        None \<Rightarrow> Inl ValueError
      | Some t \<Rightarrow>
          (case split_sign t of
             (neg, ds) \<Rightarrow>
               if ds = [] \<or> \<not> list_all is_digit ds then Inl ValueError
               else Inr (if neg then - int (digits_val ds) else int (digits_val ds))))"

text \<open>
  A \<^verbatim>\<open>float\<close> is an IEEE 754 binary64 value: \<open>Finite s m e\<close> is
  \<open>(-1)\<^sup>s \<sqdot> m \<sqdot> 2\<^sup>e\<close> with \<open>m < 2\<^sup>5\<^sup>3\<close>, and either \<open>2\<^sup>5\<^sup>2 \<le> m\<close> or
  \<open>e = -1074\<close> (zero and the subnormal numbers); the largest exponent is 971.
\<close>

datatype pyfloat = Finite bool nat int | Infinite bool | NaN

fun bit_length :: "nat \<Rightarrow> nat" where
  "bit_length n = (if n = 0 then 0 else Suc (bit_length (n div 2)))"

declare bit_length.simps [simp del]

text \<open>The quotient \<open>n / d\<close> rounded to the nearest integer, ties to even.\<close>

definition round_half_even :: "nat \<Rightarrow> nat \<Rightarrow> nat" where
  "round_half_even n d =
     (let q = n div d; r = n mod d in
      if 2 * r < d then q else if d < 2 * r then q + 1 else if even q then q else q + 1)"

definition ratio_ge_pow2 :: "nat \<Rightarrow> nat \<Rightarrow> int \<Rightarrow> bool" where
  "ratio_ge_pow2 n d e = (if 0 \<le> e then d * 2 ^ nat e \<le> n else d \<le> n * 2 ^ nat (- e))"

text \<open>The integer \<open>e\<close> with \<open>2\<^sup>e \<le> n / d < 2\<^sup>e\<^sup>+\<^sup>1\<close>, for positive \<open>n\<close> and \<open>d\<close>.\<close>

definition ilog2 :: "nat \<Rightarrow> nat \<Rightarrow> int" where
  "ilog2 n d =
     (let e0 = int (bit_length n) - int (bit_length d) in
      if ratio_ge_pow2 n d e0 then e0 else e0 - 1)"

text \<open>
  The binary64 value nearest to \<open>(-1)\<^sup>s \<sqdot> n / d\<close> (round to nearest, ties to even),
  infinite on overflow.
\<close>

definition to_double :: "bool \<Rightarrow> nat \<Rightarrow> nat \<Rightarrow> pyfloat" where
  "to_double s n d =
     (if n = 0 then Finite s 0 (- 1074)
      else
        let x = max (ilog2 n d - 52) (- 1074);
            m = (if x < 0 then round_half_even (n * 2 ^ nat (- x)) d
                 else round_half_even n (d * 2 ^ nat x));
            m' = (if m = 2 ^ 53 then 2 ^ 52 else m);
            x' = (if m = 2 ^ 53 then x + 1 else x)
        in if 971 < x' then Infinite s else Finite s m' x')"

text \<open>\<^verbatim>\<open>a + b\<close> on floats: the exact sum, rounded.\<close>

definition float_add :: "pyfloat \<Rightarrow> pyfloat \<Rightarrow> pyfloat" where
  "float_add a b =
     (case (a, b) of
        (NaN, _) \<Rightarrow> NaN
      | (_, NaN) \<Rightarrow> NaN
      | (Infinite s, Infinite t) \<Rightarrow> if s = t then Infinite s else NaN
      | (Infinite s, Finite t k f) \<Rightarrow> Infinite s
      | (Finite s m e, Infinite t) \<Rightarrow> Infinite t
      | (Finite s m e, Finite t k f) \<Rightarrow>
          let x = min e f;
              A = (if s then - int m else int m) * 2 ^ nat (e - x);
              B = (if t then - int k else int k) * 2 ^ nat (f - x);
              S = A + B
          in if S = 0 then Finite (s \<and> t) 0 (- 1074)
             else if 0 \<le> x then to_double (S < 0) (nat \<bar>S\<bar> * 2 ^ nat x) 1
             else to_double (S < 0) (nat \<bar>S\<bar>) (2 ^ nat (- x)))"

text \<open>
  \<^verbatim>\<open>round(x, 3)\<close> on a float: the exact value is rounded half-even to three decimal
  places and the decimal is converted back; infinities and NaN are returned unchanged.
\<close>

definition py_round3 :: "pyfloat \<Rightarrow> pyfloat" where
  "py_round3 x =
     (case x of
        Finite s m e \<Rightarrow>
          to_double s (if e < 0 then round_half_even (m * 1000) (2 ^ nat (- e))
                       else m * 1000 * 2 ^ nat e) 1000
      | _ \<Rightarrow> x)"

text \<open>
  \<^verbatim>\<open>str(x)\<close> on a float is \<^verbatim>\<open>repr\<close>: the shortest decimal digit string that converts
  back to \<open>x\<close> (the closest to \<open>x\<close> among the shortest), written with an exponent when the
  decimal point position is at most \<open>-4\<close> or above 16.
\<close>

function dec_up :: "nat \<Rightarrow> nat \<Rightarrow> nat" where
  "dec_up n d = (if d = 0 \<or> n < 10 * d then 0 else Suc (dec_up n (10 * d)))"
  by pat_completeness auto
termination
  by (relation "measure (\<lambda>(n, d). n - d)") auto

function dec_down :: "nat \<Rightarrow> nat \<Rightarrow> nat" where
  "dec_down n d = (if n = 0 \<or> d \<le> n then 0 else Suc (dec_down (10 * n) d))"
  by pat_completeness auto
termination
  by (relation "measure (\<lambda>(n, d). d - n)") auto

declare dec_up.simps [simp del] dec_down.simps [simp del]

text \<open>The integer \<open>t\<close> with \<open>10\<^sup>t \<le> n / d < 10\<^sup>t\<^sup>+\<^sup>1\<close>, for positive \<open>n\<close> and \<open>d\<close>.\<close>

definition ilog10 :: "nat \<Rightarrow> nat \<Rightarrow> int" where
  "ilog10 n d = (if d \<le> n then int (dec_up n d) else - int (dec_down n d))"

text \<open>The decimal \<open>c \<sqdot> 10\<^sup>p\<close> as the fraction \<open>dec_num c p / dec_den p\<close>.\<close>

definition dec_num :: "nat \<Rightarrow> int \<Rightarrow> nat" where
  "dec_num c p = (if 0 \<le> p then c * 10 ^ nat p else c)"

definition dec_den :: "int \<Rightarrow> nat" where
  "dec_den p = (if 0 \<le> p then 1 else 10 ^ nat (- p))"

text \<open>
  The decimal of \<open>k\<close> significant digits that converts back to \<open>Finite False m e\<close>, when
  there is one: of the two \<open>k\<close>-digit neighbours of \<open>n / d\<close> the closer one that does.
\<close>

definition candidate :: "nat \<Rightarrow> int \<Rightarrow> nat \<Rightarrow> nat \<Rightarrow> nat \<Rightarrow> (nat \<times> int) option" where
  "candidate m e n d k =
     (let p = ilog10 n d - (int k - 1);
          N = n * dec_den p; D = d * dec_num 1 p;
          lo = N div D; r = N mod D; hi = lo + 1;
          lo_ok = (to_double False (dec_num lo p) (dec_den p) = Finite False m e);
          hi_ok = (to_double False (dec_num hi p) (dec_den p) = Finite False m e);
          lo_closer = (2 * r < D \<or> (2 * r = D \<and> even lo))
      in if lo_ok \<and> (lo_closer \<or> \<not> hi_ok) then Some (lo, p)
         else if hi_ok then Some (hi, p)
         else None)"

fun first_candidate :: "(nat \<Rightarrow> (nat \<times> int) option) \<Rightarrow> nat list \<Rightarrow> (nat \<times> int) option" where
  "first_candidate f [] = None"
| "first_candidate f (k # ks) =
     (case f k of None \<Rightarrow> first_candidate f ks | Some r \<Rightarrow> Some r)"

text \<open>A digit string without its trailing zeros; the digit string of zero is \<open>''0''\<close>.\<close>

definition strip_zeros :: "string \<Rightarrow> string" where
  "strip_zeros ds =
     (let r = rev (dropWhile (\<lambda>c. c = CHR ''0'') (rev ds)) in if r = [] then ''0'' else r)"

text \<open>
  The digits and the decimal point position of a positive finite float. Seventeen
  significant digits always convert back, so the last case is never reached.
\<close>

definition shortest_digits :: "nat \<Rightarrow> int \<Rightarrow> string \<times> int" where
  "shortest_digits m e =
     (let n = (if 0 \<le> e then m * 2 ^ nat e else m);
          d = (if 0 \<le> e then 1 else 2 ^ nat (- e)) in
      case first_candidate (candidate m e n d) [1, 2, 3, 4, 5, 6, 7, 8, 9, 10, 11, 12, 13, 14,
             15, 16, 17] of
        Some (c, p) \<Rightarrow> (strip_zeros (digits_of c), p + int (length (digits_of c)))
      | None \<Rightarrow>
          (let p = ilog10 n d - 16; c = round_half_even (n * dec_den p) (d * dec_num 1 p)
           in (strip_zeros (digits_of c), p + int (length (digits_of c)))))"

definition format_exp :: "int \<Rightarrow> string" where
  "format_exp x =
     (let ds = digits_of (nat \<bar>x\<bar>) in
      (if x < 0 then CHR ''-'' else CHR ''+'') # (if length ds < 2 then CHR ''0'' # ds else ds))"

definition format_repr :: "string \<Rightarrow> int \<Rightarrow> string" where
  "format_repr ds decpt =
     (if decpt \<le> - 4 \<or> 16 < decpt
      then (if length ds = 1 then ds else take 1 ds @ ''.'' @ drop 1 ds) @ ''e'' @
           format_exp (decpt - 1)
      else if decpt \<le> 0 then ''0.'' @ replicate (nat (- decpt)) (CHR ''0'') @ ds
      else if int (length ds) \<le> decpt
        then ds @ replicate (nat decpt - length ds) (CHR ''0'') @ ''.0''
      else take (nat decpt) ds @ ''.'' @ drop (nat decpt) ds)"

definition str_float :: "pyfloat \<Rightarrow> string" where
  "str_float x =
     (case x of
        NaN \<Rightarrow> ''nan''
      | Infinite s \<Rightarrow> (if s then ''-inf'' else ''inf'')
      | Finite s m e \<Rightarrow>
          (if s then ''-'' else '''') @
          (if m = 0 then ''0.0''
           else (case shortest_digits m e of (ds, decpt) \<Rightarrow> format_repr ds decpt)))"

text \<open>
  \<^verbatim>\<open>float(s)\<close> on a string: an optional sign, then \<^verbatim>\<open>inf\<close>, \<^verbatim>\<open>infinity\<close> or
  \<^verbatim>\<open>nan\<close> in any case, or a decimal number with an optional exponent.
\<close>

definition to_lower :: "char \<Rightarrow> char" where
  "to_lower c =
     (if 65 \<le> (of_char c :: nat) \<and> (of_char c :: nat) \<le> 90
      then char_of ((of_char c :: nat) + 32) else c)"

definition parse_exponent :: "string \<Rightarrow> int option" where
  "parse_exponent s =
     (case s of
        [] \<Rightarrow> Some 0
      | c # cs \<Rightarrow>
          if c = CHR ''e'' \<or> c = CHR ''E''
          then (case split_sign cs of
                  (neg, ds) \<Rightarrow>
                    if ds = [] \<or> \<not> list_all is_digit ds then None
                    else Some (if neg then - int (digits_val ds) else int (digits_val ds)))
          else None)"

definition parse_decimal :: "bool \<Rightarrow> string \<Rightarrow> pyfloat option" where
  "parse_decimal neg s =
     (let ip = takeWhile is_digit s; r1 = dropWhile is_digit s;
          has_dot = (case r1 of [] \<Rightarrow> False | c # cs \<Rightarrow> c = CHR ''.'');
          fp = (if has_dot then takeWhile is_digit (drop 1 r1) else []);
          r2 = (if has_dot then dropWhile is_digit (drop 1 r1) else r1)
      in if ip = [] \<and> fp = [] then None
         else (case parse_exponent r2 of
                 None \<Rightarrow> None
               | Some ex \<Rightarrow>
                   let D = digits_val (ip @ fp); p = ex - int (length fp)
                   in Some (to_double neg (dec_num D p) (dec_den p))))"

definition py_float_str :: "string \<Rightarrow> error + pyfloat" where
  "py_float_str s =
     (case strip_underscores (CHR 0x00) (py_strip s) of
        None \<Rightarrow> Inl ValueError
      | Some t \<Rightarrow>
          (case split_sign t of
             (neg, body) \<Rightarrow>
               if map to_lower body = ''inf'' \<or> map to_lower body = ''infinity''
               then Inr (Infinite neg)
               else if map to_lower body = ''nan'' then Inr NaN
               else (case parse_decimal neg body of
                       None \<Rightarrow> Inl ValueError
                     | Some x \<Rightarrow> Inr x)))"

text \<open>
  The numbers of a summary: \<^verbatim>\<open>int\<close> counters and the \<^verbatim>\<open>float\<close> elapsed time.
  \<^verbatim>\<open>a + b\<close> converts an \<^verbatim>\<open>int\<close> operand to \<^verbatim>\<open>float\<close> when the other is one;
  \<^verbatim>\<open>round(x, 3)\<close> leaves an \<^verbatim>\<open>int\<close> as it is.
\<close>

datatype pynum = PInt int | PFloat pyfloat

definition float_of_int :: "int \<Rightarrow> pyfloat" where
  "float_of_int i = to_double (i < 0) (nat \<bar>i\<bar>) 1"

fun py_add :: "pynum \<Rightarrow> pynum \<Rightarrow> pynum" where
  "py_add (PInt a) (PInt b) = PInt (a + b)"
| "py_add (PInt a) (PFloat y) = PFloat (float_add (float_of_int a) y)"
| "py_add (PFloat x) (PInt b) = PFloat (float_add x (float_of_int b))"
| "py_add (PFloat x) (PFloat y) = PFloat (float_add x y)"

fun py_round :: "pynum \<Rightarrow> pynum" where
  "py_round (PInt a) = PInt a"
| "py_round (PFloat x) = PFloat (py_round3 x)"

fun py_str :: "pynum \<Rightarrow> string" where
  "py_str (PInt a) = str_int a"
| "py_str (PFloat x) = str_float x"

text \<open>The declared numeric type of a summary field, and the conversion it names.\<close>

datatype numtype = TInt | TFloat

fun convert :: "numtype \<Rightarrow> string \<Rightarrow> error + pynum" where
  "convert TInt s = (case py_int_str s of Inl e \<Rightarrow> Inl e | Inr i \<Rightarrow> Inr (PInt i))"
| "convert TFloat s = (case py_float_str s of Inl e \<Rightarrow> Inl e | Inr x \<Rightarrow> Inr (PFloat x))"

section \<open>\<^verbatim>\<open>datetime\<close> values\<close>

text \<open>
  A naive \<^verbatim>\<open>datetime\<close>: year, month, day, hour, minute, second, microsecond; the
  order is that of the tuple.
\<close>

datatype datetime = DateTime nat nat nat nat nat nat nat

fun dt_fields :: "datetime \<Rightarrow> nat list" where
  "dt_fields (DateTime y mo d h mi s us) = [y, mo, d, h, mi, s, us]"

fun lex_less :: "nat list \<Rightarrow> nat list \<Rightarrow> bool" where
  "lex_less [] ys = (ys \<noteq> [])"
| "lex_less (x # xs) [] = False"
| "lex_less (x # xs) (y # ys) = (x < y \<or> (x = y \<and> lex_less xs ys))"

definition dt_less :: "datetime \<Rightarrow> datetime \<Rightarrow> bool" where
  "dt_less a b = lex_less (dt_fields a) (dt_fields b)"

text \<open>\<^verbatim>\<open>min(a, b)\<close> returns \<open>a\<close> unless \<open>b < a\<close>.\<close>

definition dt_min :: "datetime \<Rightarrow> datetime \<Rightarrow> datetime" where
  "dt_min a b = (if dt_less b a then b else a)"

definition is_leap :: "nat \<Rightarrow> bool" where
  "is_leap y = (y mod 4 = 0 \<and> (y mod 100 \<noteq> 0 \<or> y mod 400 = 0))"

definition days_in_month :: "nat \<Rightarrow> nat \<Rightarrow> nat" where
  "days_in_month y mo =
     (if mo = 2 then (if is_leap y then 29 else 28)
      else if mo \<in> {4, 6, 9, 11} then 30 else 31)"

text \<open>
  A numeric field of \<^verbatim>\<open>strptime\<close>: the digits in front of the next separator, one or
  two of them, with a value in the range the directive's pattern allows.
\<close>

definition field :: "nat \<Rightarrow> nat \<Rightarrow> string \<Rightarrow> nat option" where
  "field lo1 hi2 ds =
     (if \<not> list_all is_digit ds then None
      else if length ds = 1 then (if lo1 \<le> digits_val ds then Some (digits_val ds) else None)
      else if length ds = 2
        then (if lo1 \<le> digits_val ds \<and> digits_val ds \<le> hi2 then Some (digits_val ds) else None)
      else None)"

definition expect :: "char \<Rightarrow> string \<Rightarrow> string option" where
  "expect c s = (case s of [] \<Rightarrow> None | x # xs \<Rightarrow> if x = c then Some xs else None)"

text \<open>
  \<^verbatim>\<open>datetime.strptime(s, "%Y-%m-%d %H:%M:%S.%f")\<close>. The pattern is
  four digits, \<^verbatim>\<open>-\<close>, a month \<^verbatim>\<open>1[0-2]|0[1-9]|[1-9]\<close>, \<^verbatim>\<open>-\<close>, a day
  \<^verbatim>\<open>3[0-1]|[1-2]\d|0[1-9]|[1-9]| [1-9]\<close>, whitespace \<^verbatim>\<open>\s+\<close>, an hour
  \<^verbatim>\<open>2[0-3]|[0-1]\d|\d\<close>, \<^verbatim>\<open>:\<close>, a minute \<^verbatim>\<open>[0-5]\d|\d\<close>, \<^verbatim>\<open>:\<close>, a second
  \<^verbatim>\<open>6[0-1]|[0-5]\d|\d\<close>, a dot and one to six digits, which is the whole string. A text
  that does not match, a date that does not exist and a second above 59 raise
  \<^verbatim>\<open>ValueError\<close>.
\<close>

definition take_field :: "nat \<Rightarrow> nat \<Rightarrow> char \<Rightarrow> string \<Rightarrow> (nat \<times> string) option" where
  "take_field lo1 hi2 sep s =
     (case field lo1 hi2 (takeWhile is_digit s) of
        None \<Rightarrow> None
      | Some v \<Rightarrow>
          (case expect sep (dropWhile is_digit s) of
             None \<Rightarrow> None
           | Some r \<Rightarrow> Some (v, r)))"

definition parse_year :: "string \<Rightarrow> (nat \<times> string) option" where
  "parse_year s =
     (if length (take 4 s) \<noteq> 4 \<or> \<not> list_all is_digit (take 4 s) then None
      else (case expect (CHR ''-'') (drop 4 s) of
              None \<Rightarrow> None
            | Some r \<Rightarrow> Some (digits_val (take 4 s), r)))"

text \<open>The day, with the whitespace after it: at least one whitespace character.\<close>

definition parse_day :: "string \<Rightarrow> (nat \<times> string) option" where
  "parse_day s =
     (let r = (case expect (CHR '' '') s of None \<Rightarrow> s | Some r' \<Rightarrow> r');
          dd = takeWhile is_digit r;
          day = (if r = s then field 1 31 dd else if length dd = 1 then field 1 9 dd else None);
          r4 = dropWhile is_digit r
      in case day of
           None \<Rightarrow> None
         | Some d \<Rightarrow> if dropWhile py_isspace r4 = r4 then None
                     else Some (d, dropWhile py_isspace r4))"

definition parse_fraction :: "string \<Rightarrow> nat option" where
  "parse_fraction f =
     (if f = [] \<or> 6 < length f \<or> \<not> list_all is_digit f then None
      else Some (digits_val (f @ replicate (6 - length f) (CHR ''0''))))"

definition parse_date :: "string \<Rightarrow> ((nat \<times> nat \<times> nat) \<times> string) option" where
  "parse_date s =
     (case parse_year s of
        None \<Rightarrow> None
      | Some (y, r1) \<Rightarrow>
          (case take_field 1 12 (CHR ''-'') r1 of
             None \<Rightarrow> None
           | Some (mo, r2) \<Rightarrow>
               (case parse_day r2 of
                  None \<Rightarrow> None
                | Some (d, r3) \<Rightarrow> Some ((y, mo, d), r3))))"

definition parse_clock :: "string \<Rightarrow> (nat \<times> nat \<times> nat \<times> nat) option" where
  "parse_clock s =
     (case take_field 0 23 (CHR '':'') s of
        None \<Rightarrow> None
      | Some (h, r1) \<Rightarrow>
          (case take_field 0 59 (CHR '':'') r1 of
             None \<Rightarrow> None
           | Some (mi, r2) \<Rightarrow>
               (case take_field 0 61 (CHR ''.'') r2 of
                  None \<Rightarrow> None
                | Some (sec, r3) \<Rightarrow>
                    (case parse_fraction r3 of
                       None \<Rightarrow> None
                     | Some us \<Rightarrow> Some (h, mi, sec, us)))))"

definition strptime :: "string \<Rightarrow> error + datetime" where
  "strptime s =
     (case parse_date s of
        None \<Rightarrow> Inl ValueError
      | Some ((y, mo, d), r) \<Rightarrow>
          (case parse_clock r of
             None \<Rightarrow> Inl ValueError
           | Some (h, mi, sec, us) \<Rightarrow>
               if y = 0 \<or> days_in_month y mo < d \<or> 59 < sec then Inl ValueError
               else Inr (DateTime y mo d h mi sec us)))"

text \<open>
  \<^verbatim>\<open>str\<close> of a \<^verbatim>\<open>datetime\<close>: \<^verbatim>\<open>YYYY-MM-DD HH:MM:SS\<close>, followed by a dot and six
  digits of microseconds only when the microseconds are not zero.
\<close>

definition zero_pad :: "nat \<Rightarrow> nat \<Rightarrow> string" where
  "zero_pad w n = replicate (w - length (digits_of n)) (CHR ''0'') @ digits_of n"

fun str_datetime :: "datetime \<Rightarrow> string" where
  "str_datetime (DateTime y mo d h mi s us) =
     zero_pad 4 y @ ''-'' @ zero_pad 2 mo @ ''-'' @ zero_pad 2 d @ '' '' @
     zero_pad 2 h @ '':'' @ zero_pad 2 mi @ '':'' @ zero_pad 2 s @
     (if us = 0 then '''' else ''.'' @ zero_pad 6 us)"

section \<open>Constants of the module\<close>

definition MAXIMUM_XML_SIZE :: nat where
  "MAXIMUM_XML_SIZE = 200000000"

definition MAXIMUM_SUMMARY_SIZE :: nat where
  "MAXIMUM_SUMMARY_SIZE = 1024"

definition TESTSUITE_TAG :: string where
  "TESTSUITE_TAG = ''testsuite''"

definition PROPERTIES_TAG :: string where
  "PROPERTIES_TAG = ''properties''"

definition PROPERTY_TAG :: string where
  "PROPERTY_TAG = ''property''"

definition REQUIRED_METADATA_PROPERTIES :: "string list" where
  "REQUIRED_METADATA_PROPERTIES =
     [''topology'', ''testbed'', ''timestamp'', ''host'', ''asic'', ''platform'', ''hwsku'',
      ''os_version'']"

definition TESTCASE_TAG :: string where
  "TESTCASE_TAG = ''testcase''"

definition REQUIRED_TESTCASE_ATTRIBUTES :: "string list" where
  "REQUIRED_TESTCASE_ATTRIBUTES = [''classname'', ''file'', ''line'', ''name'', ''time'']"

definition TESTCASE_PROPERTIES_TAG :: string where
  "TESTCASE_PROPERTIES_TAG = ''properties''"

definition TESTCASE_PROPERTY_TAG :: string where
  "TESTCASE_PROPERTY_TAG = ''property''"

definition REQUIRED_TESTCASE_PROPERTIES :: "string list" where
  "REQUIRED_TESTCASE_PROPERTIES = [''start'', ''end'']"

text \<open>
  \<^verbatim>\<open>REQUIRED_TESTSUITE_ATTRIBUTES\<close> and \<^verbatim>\<open>EXTRA_XML_SUMMARY_ATTRIBUTES\<close> are sets of
  (name, type) pairs in the source. A loop over a set visits its members in an order the
  language does not fix; the lists below have the order in which the source writes them.
  The order decides only which of several errors is raised first and the insertion order of
  the keys of a merged summary.
\<close>

definition REQUIRED_TESTSUITE_ATTRIBUTES :: "(string \<times> numtype) list" where
  "REQUIRED_TESTSUITE_ATTRIBUTES =
     [(''time'', TFloat), (''tests'', TInt), (''skipped'', TInt), (''failures'', TInt),
      (''errors'', TInt)]"

definition EXTRA_XML_SUMMARY_ATTRIBUTES :: "(string \<times> numtype) list" where
  "EXTRA_XML_SUMMARY_ATTRIBUTES = [(''xfails'', TInt)]"

section \<open>Validation of properties blocks and test cases\<close>

text \<open>
  The loops of \<^verbatim>\<open>_validate_test_metadata\<close> and \<^verbatim>\<open>_validate_test_case_properties\<close>
  are the same text up to the list of recognised names, which is the first argument here.
  \<^verbatim>\<open>seen\<close> is the list the loop appends to.
\<close>

fun scan_properties :: "string list \<Rightarrow> element list \<Rightarrow> string list \<Rightarrow> error + string list" where
  "scan_properties req [] seen = Inr seen"
| "scan_properties req (p # ps) seen =
     (case el_get p ''name'' of
        None \<Rightarrow> scan_properties req ps seen
      | Some property_name \<Rightarrow>
          if property_name = [] then scan_properties req ps seen
          else if property_name \<notin> set req then scan_properties req ps seen
          else if property_name \<in> set seen
            then Inl (JUnitXMLValidationError (DuplicateElement property_name))
          else (case el_get p ''value'' of
                  None \<Rightarrow> Inl (JUnitXMLValidationError (NoValueField property_name))
                | Some property_value \<Rightarrow> scan_properties req ps (seen @ [property_name])))"

definition validate_test_metadata :: "element \<Rightarrow> error + unit" where
  "validate_test_metadata root =
     (case el_find PROPERTIES_TAG root of
        None \<Rightarrow> Inr ()
      | Some properties_element \<Rightarrow>
          if children properties_element = [] then Inr ()
          else (case scan_properties REQUIRED_METADATA_PROPERTIES
                       (el_iterfind PROPERTY_TAG properties_element) [] of
                  Inl e \<Rightarrow> Inl e
                | Inr seen_properties \<Rightarrow>
                    if set seen_properties \<subset> set REQUIRED_METADATA_PROPERTIES
                    then Inl (JUnitXMLValidationError MissingMetadata)
                    else Inr ()))"

text \<open>
  A test case that lacks a timing property is only reported with \<^verbatim>\<open>print\<close>; the
  function returns normally, so the model returns \<open>Inr ()\<close> there.
\<close>

definition validate_test_case_properties :: "element \<Rightarrow> error + unit" where
  "validate_test_case_properties root =
     (case el_find TESTCASE_PROPERTIES_TAG root of
        None \<Rightarrow> Inr ()
      | Some testcase_properties_element \<Rightarrow>
          if children testcase_properties_element = [] then Inr ()
          else (case scan_properties REQUIRED_TESTCASE_PROPERTIES
                       (el_iterfind TESTCASE_PROPERTY_TAG testcase_properties_element) [] of
                  Inl e \<Rightarrow> Inl e
                | Inr seen_testcase_properties \<Rightarrow> Inr ()))"

fun check_attributes :: "element \<Rightarrow> string list \<Rightarrow> error + unit" where
  "check_attributes test_case [] = Inr ()"
| "check_attributes test_case (attribute # rest) =
     (if attribute \<notin> set (el_keys test_case)
      then Inl (JUnitXMLValidationError
             (AttributeNotFound attribute
                (case el_get test_case ''name'' of None \<Rightarrow> ''Name Not Found'' | Some n \<Rightarrow> n)))
      else check_attributes test_case rest)"

definition validate_test_case :: "element \<Rightarrow> error + unit" where
  "validate_test_case test_case =
     (case check_attributes test_case REQUIRED_TESTCASE_ATTRIBUTES of
        Inl e \<Rightarrow> Inl e
      | Inr u \<Rightarrow> validate_test_case_properties test_case)"

fun validate_each :: "element list \<Rightarrow> error + unit" where
  "validate_each [] = Inr ()"
| "validate_each (test_case # cases) =
     (case validate_test_case test_case of
        Inl e \<Rightarrow> Inl e
      | Inr u \<Rightarrow> validate_each cases)"

definition validate_test_cases :: "element \<Rightarrow> error + unit" where
  "validate_test_cases root = validate_each (el_iterfind TESTCASE_TAG root)"

section \<open>Validation of the root element and the entry points\<close>

fun check_summary_fields :: "element \<Rightarrow> (string \<times> numtype) list \<Rightarrow> error + unit" where
  "check_summary_fields root [] = Inr ()"
| "check_summary_fields root ((xml_field, expected_type) # rest) =
     (case el_get root xml_field of
        None \<Rightarrow> Inl (JUnitXMLValidationError (FieldNotFound xml_field))
      | Some v \<Rightarrow>
          (case convert expected_type v of
             Inl e \<Rightarrow> Inl (JUnitXMLValidationError (InvalidType xml_field (Some v)))
           | Inr n \<Rightarrow> check_summary_fields root rest))"

definition validate_test_summary :: "element \<Rightarrow> error + unit" where
  "validate_test_summary root =
     (if tag root \<noteq> TESTSUITE_TAG then Inl (JUnitXMLValidationError TagNotFound)
      else check_summary_fields root REQUIRED_TESTSUITE_ATTRIBUTES)"

definition validate_junit_xml :: "element \<Rightarrow> error + element" where
  "validate_junit_xml root =
     (case validate_test_summary root of
        Inl e \<Rightarrow> Inl e
      | Inr u \<Rightarrow>
          (case validate_test_metadata root of
             Inl e \<Rightarrow> Inl e
           | Inr u \<Rightarrow>
               (case validate_test_cases root of
                  Inl e \<Rightarrow> Inl e
                | Inr u \<Rightarrow> Inr root)))"

text \<open>
  The entry points work on the world outside: the size of a stream object, the file
  system, and the XML library that builds a tree. These are parameters of the model. Every
  call of the XML library and every line the archive scan prints is recorded as an event,
  in order, so that what happens before what can be stated.
\<close>

datatype diagnostic =
    DirectoryNotFound string
  | Skipping string error
  | NoValidFiles string

datatype event = TreeBuilt string | Printed diagnostic

record environment =
  path_exists :: "string \<Rightarrow> bool"
  path_isfile :: "string \<Rightarrow> bool"
  path_isdir :: "string \<Rightarrow> bool"
  path_getsize :: "string \<Rightarrow> nat"
  et_parse :: "string \<Rightarrow> error + element"

text \<open>
  \<^verbatim>\<open>validate_junit_xml_stream\<close>: \<open>getsizeof\<close> is \<^verbatim>\<open>sys.getsizeof\<close> and
  \<open>fromstring\<close> is \<^verbatim>\<open>ET.fromstring\<close> with DTDs forbidden.
\<close>

definition validate_junit_xml_stream ::
  "(string \<Rightarrow> nat) \<Rightarrow> (string \<Rightarrow> error + element) \<Rightarrow> string \<Rightarrow> event list \<times> (error + element)" where
  "validate_junit_xml_stream getsizeof fromstring stream =
     (if MAXIMUM_XML_SIZE < getsizeof stream
      then ([], Inl (JUnitXMLValidationError StreamTooLarge))
      else ([TreeBuilt stream],
            (case fromstring stream of
               Inl e \<Rightarrow> Inl (JUnitXMLValidationError (CouldNotParseStream e))
             | Inr root \<Rightarrow> validate_junit_xml root)))"

definition validate_junit_xml_file ::
  "environment \<Rightarrow> string \<Rightarrow> event list \<times> (error + element)" where
  "validate_junit_xml_file env document_name =
     (if \<not> path_exists env document_name \<or> \<not> path_isfile env document_name
      then ([], Inl (JUnitXMLValidationError FileNotFound))
      else if MAXIMUM_XML_SIZE < path_getsize env document_name
      then ([], Inl (JUnitXMLValidationError FileTooLarge))
      else ([TreeBuilt document_name],
            (case et_parse env document_name of
               Inl e \<Rightarrow> Inl (JUnitXMLValidationError (CouldNotParse document_name e))
             | Inr root \<Rightarrow> validate_junit_xml root)))"

section \<open>The case classifier\<close>

definition parse_testcase_properties :: "element \<Rightarrow> (string option \<times> string) list" where
  "parse_testcase_properties root =
     (case el_find TESTCASE_PROPERTIES_TAG root of
        None \<Rightarrow> []
      | Some testcase_properties_element \<Rightarrow>
          if children testcase_properties_element = [] then []
          else fold (\<lambda>testcase_prop d.
                       case el_get testcase_prop ''value'' of
                         None \<Rightarrow> d
                       | Some v \<Rightarrow> if v = [] then d
                                  else AList.update (el_get testcase_prop ''name'') v d)
                 (el_iterfind TESTCASE_PROPERTY_TAG testcase_properties_element) [])"

text \<open>The loop that looks for the xfail property and breaks at the first one.\<close>

fun xfail_scan :: "element list \<Rightarrow> string" where
  "xfail_scan [] = ''''"
| "xfail_scan (prop # props) =
     (if el_get prop ''name'' = Some ''xfail'' then ''xfail_'' else xfail_scan props)"

definition xfail_case_of :: "element \<Rightarrow> string" where
  "xfail_case_of test_case =
     (case el_find PROPERTIES_TAG test_case of
        None \<Rightarrow> ''''
      | Some properties_element \<Rightarrow>
          if children properties_element \<noteq> []
          then xfail_scan (el_iterfind PROPERTY_TAG properties_element)
          else '''')"

definition message_of :: "element \<Rightarrow> string" where
  "message_of marker = (case el_get marker ''message'' of None \<Rightarrow> '''' | Some m \<Rightarrow> m)"

text \<open>
  \<^verbatim>\<open>_parse_test_case\<close>. \<^verbatim>\<open>test_case.get("classname").split(".")\<close> raises
  \<^verbatim>\<open>AttributeError\<close> when the attribute is absent; the first token of the split is the
  text before the first dot.
\<close>

definition parse_test_case :: "element \<Rightarrow> error + (string \<times> (string \<times> pyval) list)" where
  "parse_test_case test_case =
     (case el_get test_case ''classname'' of
        None \<Rightarrow> Inl AttributeError
      | Some classname \<Rightarrow>
          let feature = takeWhile (\<lambda>c. c \<noteq> CHR ''.'') classname;
              result1 = fold (\<lambda>attribute d.
                               AList.update attribute
                                 (case el_get test_case attribute of None \<Rightarrow> PNone | Some v \<Rightarrow> PStr v) d)
                          REQUIRED_TESTCASE_ATTRIBUTES [];
              result2 = fold (\<lambda>attribute d.
                               case map_of (parse_testcase_properties test_case) (Some attribute) of
                                 None \<Rightarrow> d
                               | Some v \<Rightarrow> AList.update attribute (PStr v) d)
                          REQUIRED_TESTCASE_PROPERTIES result1;
              failure = el_find ''failure'' test_case;
              error = el_find ''error'' test_case;
              skipped = el_find ''skipped'' test_case;
              xfail_case = xfail_case_of test_case;
              (label, summary) =
                 (case failure of
                    Some f \<Rightarrow> (xfail_case @ ''failure'', message_of f)
                  | None \<Rightarrow>
                 (case skipped of
                    Some s \<Rightarrow> (xfail_case @ ''skipped'', message_of s)
                  | None \<Rightarrow>
                 (case error of
                    Some e \<Rightarrow> (xfail_case @ ''error'', message_of e)
                  | None \<Rightarrow> (xfail_case @ ''success'', ''''))));
              result3 = AList.update ''result'' (PStr label) result2;
              result4 = AList.update ''summary''
                          (PStr (take (min (length summary) MAXIMUM_SUMMARY_SIZE) summary)) result3;
              result5 = AList.update ''error'' (PBool (error \<noteq> None)) result4
          in Inr (feature, result5))"

text \<open>
  The loop of \<^verbatim>\<open>_parse_test_cases\<close> over \<^verbatim>\<open>root.findall("testcase")\<close>, appending each
  result to the list of its feature (a \<^verbatim>\<open>defaultdict(list)\<close>).
\<close>

fun group_cases ::
  "element list \<Rightarrow> (string \<times> (string \<times> pyval) list list) list
     \<Rightarrow> error + (string \<times> (string \<times> pyval) list list) list" where
  "group_cases [] acc = Inr acc"
| "group_cases (test_case # rest) acc =
     (case parse_test_case test_case of
        Inl e \<Rightarrow> Inl e
      | Inr (feature, result) \<Rightarrow>
          group_cases rest
            (AList.update feature
               ((case map_of acc feature of None \<Rightarrow> [] | Some cs \<Rightarrow> cs) @ [result]) acc))"

definition parse_test_cases :: "element \<Rightarrow> error + (string \<times> (string \<times> pyval) list list) list" where
  "parse_test_cases root = group_cases (el_iterfind ''testcase'' root) []"

section \<open>The document parser: metadata and summary\<close>

definition parse_test_metadata :: "element \<Rightarrow> metadata" where
  "parse_test_metadata root =
     (case el_find PROPERTIES_TAG root of
        None \<Rightarrow> []
      | Some properties_element \<Rightarrow>
          if children properties_element = [] then []
          else fold (\<lambda>prop d.
                       case el_get prop ''value'' of
                         None \<Rightarrow> d
                       | Some v \<Rightarrow> if v = [] then d else AList.update (el_get prop ''name'') v d)
                 (el_iterfind PROPERTY_TAG properties_element) [])"

text \<open>
  \<^verbatim>\<open>_extract_test_summary\<close> counts in a \<^verbatim>\<open>defaultdict(int)\<close>: \<open>incr k v d\<close> is
  \<^verbatim>\<open>d[k] += v\<close>, where a missing key counts from the integer 0. A boolean that is added
  counts as 1 or 0.
\<close>

definition incr :: "string \<Rightarrow> pynum \<Rightarrow> (string \<times> pynum) list \<Rightarrow> (string \<times> pynum) list" where
  "incr k v d = AList.update k (py_add (case map_of d k of None \<Rightarrow> PInt 0 | Some c \<Rightarrow> c) v) d"

definition of_flag :: "bool \<Rightarrow> pynum" where
  "of_flag b = PInt (if b then 1 else 0)"

text \<open>\<^verbatim>\<open>float(v)\<close> for a value of a parsed case.\<close>

fun py_float_val :: "pyval \<Rightarrow> error + pyfloat" where
  "py_float_val (PStr s) = py_float_str s"
| "py_float_val (PBool b) = Inr (float_of_int (if b then 1 else 0))"
| "py_float_val PNone = Inl TypeError"

text \<open>The body of the loop over the cases, in the order of its statements.\<close>

definition count_case ::
  "(string \<times> pyval) list \<Rightarrow> (string \<times> pynum) list \<Rightarrow> error + (string \<times> pynum) list" where
  "count_case test_case test_result_summary =
     (let s1 = incr ''tests'' (PInt 1) test_result_summary in
      case getitem test_case ''result'' of Inl e \<Rightarrow> Inl e | Inr r \<Rightarrow>
      let s2 = incr ''failures'' (of_flag (r = PStr ''failure'' \<or> r = PStr ''error'')) s1;
          s3 = incr ''skipped'' (of_flag (r = PStr ''skipped'')) s2 in
      case getitem test_case ''error'' of Inl e \<Rightarrow> Inl e | Inr ev \<Rightarrow>
      (case ev of
         PBool b \<Rightarrow>
           let s4 = incr ''errors'' (of_flag b) s3 in
           (case getitem test_case ''time'' of Inl e \<Rightarrow> Inl e | Inr tv \<Rightarrow>
            case py_float_val tv of Inl e \<Rightarrow> Inl e | Inr t \<Rightarrow>
            let s5 = incr ''time'' (PFloat t) s4 in
            Inr (incr ''xfails''
                   (of_flag (r = PStr ''xfail_failure'' \<or> r = PStr ''xfail_error'' \<or>
                             r = PStr ''xfail_skipped'' \<or> r = PStr ''xfail_success'')) s5))
       | _ \<Rightarrow> Inl TypeError))"

fun count_cases ::
  "(string \<times> pyval) list list \<Rightarrow> (string \<times> pynum) list \<Rightarrow> error + (string \<times> pynum) list" where
  "count_cases [] acc = Inr acc"
| "count_cases (c # cs) acc =
     (case count_case c acc of Inl e \<Rightarrow> Inl e | Inr acc' \<Rightarrow> count_cases cs acc')"

fun count_groups ::
  "(string \<times> (string \<times> pyval) list list) list \<Rightarrow> (string \<times> pynum) list
     \<Rightarrow> error + (string \<times> pynum) list" where
  "count_groups [] acc = Inr acc"
| "count_groups ((feature, cases) # rest) acc =
     (case count_cases cases acc of Inl e \<Rightarrow> Inl e | Inr acc' \<Rightarrow> count_groups rest acc')"

definition extract_test_summary ::
  "(string \<times> (string \<times> pyval) list list) list \<Rightarrow> error + (string \<times> string) list" where
  "extract_test_summary test_cases =
     (case count_groups test_cases [] of
        Inl e \<Rightarrow> Inl e
      | Inr test_result_summary \<Rightarrow> Inr (map (\<lambda>(k, v). (k, py_str v)) test_result_summary))"

section \<open>The aggregator\<close>

text \<open>
  \<^verbatim>\<open>attr_type(d.get(attribute, 0))\<close>: the string of the key converted with the declared
  type, or the default integer 0 converted with it.
\<close>

definition get_number :: "numtype \<Rightarrow> (string \<times> string) list \<Rightarrow> string \<Rightarrow> error + pynum" where
  "get_number attr_type d attribute =
     (case map_of d attribute of
        None \<Rightarrow> Inr (case attr_type of TInt \<Rightarrow> PInt 0 | TFloat \<Rightarrow> PFloat (float_of_int 0))
      | Some s \<Rightarrow> convert attr_type s)"

fun sum_attributes ::
  "(string \<times> numtype) list \<Rightarrow> (string \<times> string) list \<Rightarrow> (string \<times> string) list
     \<Rightarrow> (string \<times> string) list \<Rightarrow> error + (string \<times> string) list" where
  "sum_attributes [] current update new_summary = Inr new_summary"
| "sum_attributes ((attribute, attr_type) # rest) current update new_summary =
     (case get_number attr_type current attribute of Inl e \<Rightarrow> Inl e | Inr a \<Rightarrow>
      case get_number attr_type update attribute of Inl e \<Rightarrow> Inl e | Inr b \<Rightarrow>
      sum_attributes rest current update
        (AList.update attribute (py_str (py_round (py_add a b))) new_summary))"

definition update_test_summary ::
  "(string \<times> string) list \<Rightarrow> (string \<times> string) list \<Rightarrow> error + (string \<times> string) list" where
  "update_test_summary current update =
     (if current = [] then Inr update
      else (case sum_attributes REQUIRED_TESTSUITE_ATTRIBUTES current update [] of
              Inl e \<Rightarrow> Inl e
            | Inr new_summary \<Rightarrow>
                sum_attributes EXTRA_XML_SUMMARY_ATTRIBUTES current update new_summary))"

text \<open>
  \<^verbatim>\<open>_update_test_metadata\<close>. \<open>d[prop]\<close> on a missing key raises \<^verbatim>\<open>KeyError\<close>; the
  current timestamp is read and parsed before the incoming one.
\<close>

definition meta_item :: "metadata \<Rightarrow> string \<Rightarrow> error + string" where
  "meta_item d prop = (case map_of d (Some prop) of None \<Rightarrow> Inl (KeyError prop) | Some v \<Rightarrow> Inr v)"

fun merge_properties ::
  "string list \<Rightarrow> metadata \<Rightarrow> metadata \<Rightarrow> metadata \<Rightarrow> error + metadata" where
  "merge_properties [] current update new_metadata = Inr new_metadata"
| "merge_properties (prop # rest) current update new_metadata =
     (if prop = ''timestamp''
      then (case meta_item current prop of Inl e \<Rightarrow> Inl e | Inr cs \<Rightarrow>
            case strptime cs of Inl e \<Rightarrow> Inl e | Inr ct \<Rightarrow>
            case meta_item update prop of Inl e \<Rightarrow> Inl e | Inr us \<Rightarrow>
            case strptime us of Inl e \<Rightarrow> Inl e | Inr ut \<Rightarrow>
            merge_properties rest current update
              (AList.update (Some prop) (str_datetime (dt_min ct ut)) new_metadata))
      else (case meta_item update prop of Inl e \<Rightarrow> Inl e | Inr v \<Rightarrow>
            merge_properties rest current update (AList.update (Some prop) v new_metadata)))"

definition update_test_metadata :: "metadata \<Rightarrow> metadata \<Rightarrow> error + metadata" where
  "update_test_metadata current update =
     (if current = [] then Inr update
      else if update = [] then Inr current
      else merge_properties REQUIRED_METADATA_PROPERTIES current update [])"

text \<open>
  \<^verbatim>\<open>_update_test_cases\<close>: for each group of the update, its cases followed by the cases
  the aggregate already has for that group.
\<close>

definition update_test_cases ::
  "(string \<times> 'c list) list \<Rightarrow> (string \<times> 'c list) list \<Rightarrow> (string \<times> 'c list) list" where
  "update_test_cases current update =
     (if current = [] then update
      else fold (\<lambda>(group, cases) new_cases.
                   let updated_cases =
                         (case map_of new_cases group of
                            None \<Rightarrow> cases
                          | Some old \<Rightarrow> cases @ old)
                   in AList.update group updated_cases new_cases)
             update current)"

text \<open>
  \<^verbatim>\<open>parse_test_result\<close>: the three sections of the result, empty at the start
  (\<^verbatim>\<open>defaultdict(dict)\<close>), updated once per root. No roots give \<^verbatim>\<open>None\<close>.
\<close>

record test_result =
  test_metadata :: metadata
  test_cases :: "(string \<times> (string \<times> pyval) list list) list"
  test_summary :: "(string \<times> string) list"

definition empty_result :: test_result where
  "empty_result = \<lparr>test_metadata = [], test_cases = [], test_summary = []\<rparr>"

definition fold_root :: "element \<Rightarrow> test_result \<Rightarrow> error + test_result" where
  "fold_root root test_result_json =
     (case update_test_metadata (test_metadata test_result_json) (parse_test_metadata root) of
        Inl e \<Rightarrow> Inl e | Inr md \<Rightarrow>
      case parse_test_cases root of Inl e \<Rightarrow> Inl e | Inr cases \<Rightarrow>
      case extract_test_summary cases of Inl e \<Rightarrow> Inl e | Inr summary \<Rightarrow>
      case update_test_summary (test_summary test_result_json) summary of
        Inl e \<Rightarrow> Inl e | Inr sm \<Rightarrow>
      Inr \<lparr>test_metadata = md,
           test_cases = update_test_cases (test_cases test_result_json) cases,
           test_summary = sm\<rparr>)"

fun fold_roots :: "element list \<Rightarrow> test_result \<Rightarrow> error + test_result" where
  "fold_roots [] test_result_json = Inr test_result_json"
| "fold_roots (root # roots) test_result_json =
     (case fold_root root test_result_json of
        Inl e \<Rightarrow> Inl e
      | Inr r \<Rightarrow> fold_roots roots r)"

definition parse_test_result :: "element list \<Rightarrow> error + test_result option" where
  "parse_test_result roots =
     (if roots = [] then Inr None
      else (case fold_roots roots empty_result of Inl e \<Rightarrow> Inl e | Inr r \<Rightarrow> Inr (Some r)))"

text \<open>
  The summaries of a sequence of documents folded by \<^verbatim>\<open>_update_test_summary\<close> alone, as
  the loop of \<^verbatim>\<open>parse_test_result\<close> does with its \<^verbatim>\<open>test_summary\<close> section.
\<close>

fun fold_summaries ::
  "(string \<times> string) list list \<Rightarrow> (string \<times> string) list \<Rightarrow> error + (string \<times> string) list" where
  "fold_summaries [] current = Inr current"
| "fold_summaries (update # rest) current =
     (case update_test_summary current update of
        Inl e \<Rightarrow> Inl e
      | Inr s \<Rightarrow> fold_summaries rest s)"

section \<open>The archive scan\<close>

text \<open>
  \<^verbatim>\<open>validate_junit_xml_archive\<close>, from the list of documents the three \<^verbatim>\<open>glob\<close> calls
  give (a set in the source: the list is the order in which the loops visit it). The state
  of the loop is the list of roots, the document the metadata was taken from and that
  metadata. Two metadata dictionaries are equal when they hold the same items, in any order.
\<close>

definition required_metadata :: "element \<Rightarrow> metadata" where
  "required_metadata root =
     filter (\<lambda>(k, v). (case k of None \<Rightarrow> False
                        | Some n \<Rightarrow> n \<in> set REQUIRED_METADATA_PROPERTIES \<and> n \<noteq> ''timestamp''))
       (parse_test_metadata root)"

definition dict_eq :: "metadata \<Rightarrow> metadata \<Rightarrow> bool" where
  "dict_eq a b = (set a = set b)"

record scan_state =
  roots :: "element list"
  metadata_source :: "string option"
  scan_metadata :: metadata

text \<open>
  The body of the \<^verbatim>\<open>try\<close> block for one document: the events, and the error that
  reaches the \<^verbatim>\<open>except\<close> clause or the new state.
\<close>

definition scan_document ::
  "environment \<Rightarrow> string \<Rightarrow> scan_state \<Rightarrow> event list \<times> (error + scan_state)" where
  "scan_document env document st =
     (case validate_junit_xml_file env document of
        (evs, Inl e) \<Rightarrow> (evs, Inl e)
      | (evs, Inr root) \<Rightarrow>
          let root_metadata = required_metadata root in
          if root_metadata \<noteq> [] then
            (case (case metadata_source st of
                     None \<Rightarrow> (document, root_metadata)
                   | Some s \<Rightarrow> if s = [] then (document, root_metadata)
                              else (s, scan_metadata st)) of
               (source, metadata) \<Rightarrow>
                 if \<not> dict_eq root_metadata metadata
                 then (evs, Inl (JUnitXMLValidationError
                         (MetadataDiffers document source root_metadata metadata)))
                 else (evs, Inr \<lparr>roots = roots st @ [root], metadata_source = Some source,
                                   scan_metadata = metadata\<rparr>))
          else (evs, Inr (st\<lparr>roots := roots st @ [root]\<rparr>)))"

fun scan_documents ::
  "environment \<Rightarrow> bool \<Rightarrow> string list \<Rightarrow> scan_state \<Rightarrow> event list \<times> (error + scan_state)" where
  "scan_documents env strict [] st = ([], Inr st)"
| "scan_documents env strict (document # rest) st =
     (case scan_document env document st of
        (evs, Inr st') \<Rightarrow>
          (case scan_documents env strict rest st' of (evs', r) \<Rightarrow> (evs @ evs', r))
      | (evs, Inl e) \<Rightarrow>
          if strict
          then (evs, Inl (JUnitXMLValidationError (CouldNotParse document e)))
          else (case scan_documents env strict rest st of
                  (evs', r) \<Rightarrow> (evs @ [Printed (Skipping document e)] @ evs', r)))"

definition validate_junit_xml_archive ::
  "environment \<Rightarrow> string \<Rightarrow> string list \<Rightarrow> bool \<Rightarrow> event list \<times> (error + element list option)" where
  "validate_junit_xml_archive env directory_name doc_list strict =
     (if \<not> path_exists env directory_name \<or> \<not> path_isdir env directory_name
      then ([Printed (DirectoryNotFound directory_name)], Inr None)
      else if MAXIMUM_XML_SIZE < sum_list (map (path_getsize env) doc_list)
      then ([], Inl (JUnitXMLValidationError DirectoryTooLarge))
      else (case scan_documents env strict doc_list
                   \<lparr>roots = [], metadata_source = None, scan_metadata = []\<rparr> of
              (evs, Inl e) \<Rightarrow> (evs, Inl e)
            | (evs, Inr st) \<Rightarrow>
                (evs @ (if roots st = [] then [Printed (NoValidFiles directory_name)] else []),
                 Inr (Some (roots st)))))"

section \<open>Classification: what the claims say\<close>

text \<open>
  The xfail marker as the specification words it: the case has a properties block and one
  of its \<^verbatim>\<open>property\<close> children is named \<^verbatim>\<open>xfail\<close>.
\<close>

definition xfail_marked :: "element \<Rightarrow> bool" where
  "xfail_marked test_case =
     (case el_find PROPERTIES_TAG test_case of
        None \<Rightarrow> False
      | Some pe \<Rightarrow> (\<exists>p \<in> set (children pe). tag p = PROPERTY_TAG \<and> el_get p ''name'' = Some ''xfail''))"

definition precedence_label :: "element \<Rightarrow> string" where
  "precedence_label test_case =
     (if el_find ''failure'' test_case \<noteq> None then ''failure''
      else if el_find ''skipped'' test_case \<noteq> None then ''skipped''
      else if el_find ''error'' test_case \<noteq> None then ''error''
      else ''success'')"

text \<open>
  The recognised names of a properties block: the non-empty names of its \<^verbatim>\<open>property\<close>
  children that are required metadata keys.
\<close>

definition recognized :: "element \<Rightarrow> string set" where
  "recognized pe =
     {n. \<exists>p \<in> set (el_iterfind PROPERTY_TAG pe).
           el_get p ''name'' = Some n \<and> n \<noteq> [] \<and> n \<in> set REQUIRED_METADATA_PROPERTIES}"

section \<open>Summaries: what the claims say\<close>

text \<open>
  The counters of a summary that are declared \<^verbatim>\<open>int\<close>: the four integer entries of
  \<^verbatim>\<open>REQUIRED_TESTSUITE_ATTRIBUTES\<close> and the one of \<^verbatim>\<open>EXTRA_XML_SUMMARY_ATTRIBUTES\<close>. The
  remaining field, \<^verbatim>\<open>time\<close>, is declared \<^verbatim>\<open>float\<close>.
\<close>

definition int_fields :: "string list" where
  "int_fields = [''tests'', ''failures'', ''skipped'', ''errors'', ''xfails'']"

definition summary_attributes :: "(string \<times> numtype) list" where
  "summary_attributes = REQUIRED_TESTSUITE_ATTRIBUTES @ EXTRA_XML_SUMMARY_ATTRIBUTES"

text \<open>
  Properties of one parsed case: its result label is \<^verbatim>\<open>failure\<close> or \<^verbatim>\<open>error\<close>; its
  result label is \<^verbatim>\<open>skipped\<close>; its error flag is set.
\<close>

definition is_failure :: "(string \<times> pyval) list \<Rightarrow> bool" where
  "is_failure c = (map_of c ''result'' = Some (PStr ''failure'') \<or>
                   map_of c ''result'' = Some (PStr ''error''))"

definition is_skipped :: "(string \<times> pyval) list \<Rightarrow> bool" where
  "is_skipped c = (map_of c ''result'' = Some (PStr ''skipped''))"

definition has_error :: "(string \<times> pyval) list \<Rightarrow> bool" where
  "has_error c = (map_of c ''error'' = Some (PBool True))"

text \<open>The cases of all groups of a document, and the number of those with a property.\<close>

definition all_cases :: "(string \<times> 'c list) list \<Rightarrow> 'c list" where
  "all_cases groups = concat (map snd groups)"

definition count_of :: "('c \<Rightarrow> bool) \<Rightarrow> 'c list \<Rightarrow> int" where
  "count_of P cs = int (length (filter P cs))"

text \<open>
  The value one field of a merged summary is expected to have: both operands converted with
  the declared type, added, rounded to three places and printed; nothing when a conversion
  fails.
\<close>

definition merged ::
  "numtype \<Rightarrow> (string \<times> string) list \<Rightarrow> (string \<times> string) list \<Rightarrow> string \<Rightarrow> string option" where
  "merged attr_type current update attribute =
     (case get_number attr_type current attribute of
        Inl e \<Rightarrow> None
      | Inr a \<Rightarrow>
          (case get_number attr_type update attribute of
             Inl e \<Rightarrow> None
           | Inr b \<Rightarrow> Some (py_str (py_round (py_add a b)))))"

section \<open>Invariants of the counters and of printed numbers\<close>

text \<open>
  The dictionary \<^verbatim>\<open>_extract_test_summary\<close> counts in is empty or holds an integer under
  every counter and a float under \<^verbatim>\<open>time\<close>; \<open>int_at\<close> reads a counter of it.
\<close>

definition int_at :: "(string \<times> pynum) list \<Rightarrow> string \<Rightarrow> int" where
  "int_at d k = (case map_of d k of Some (PInt n) \<Rightarrow> n | _ \<Rightarrow> 0)"

definition counting :: "(string \<times> pynum) list \<Rightarrow> bool" where
  "counting d =
     (d = [] \<or> ((\<forall>k \<in> set int_fields. \<exists>n. map_of d k = Some (PInt n)) \<and>
                (\<exists>t. map_of d ''time'' = Some (PFloat t))))"

text \<open>
  A summary is empty or holds a printed integer under every counter and a printed float under
  \<^verbatim>\<open>time\<close>; \<open>cnt\<close> reads a counter of it, 0 when it is absent.
\<close>

definition canonical :: "(string \<times> string) list \<Rightarrow> bool" where
  "canonical s =
     (s = [] \<or> ((\<forall>k \<in> set int_fields. \<exists>n. map_of s k = Some (str_int n)) \<and>
                (\<exists>t. map_of s ''time'' = Some (str_float t))))"

definition cnt :: "(string \<times> string) list \<Rightarrow> string \<Rightarrow> int" where
  "cnt s k =
     (case map_of s k of
        None \<Rightarrow> 0
      | Some v \<Rightarrow> (case py_int_str v of Inl e \<Rightarrow> 0 | Inr n \<Rightarrow> n))"

text \<open>The shape of the text \<^verbatim>\<open>str\<close> gives a number: a non-empty string of digits.\<close>

definition digit_string :: "string \<Rightarrow> bool" where
  "digit_string ds = (ds \<noteq> [] \<and> list_all is_digit ds)"

text \<open>An exponent part: empty, or \<open>e\<close>, a sign and digits.\<close>

definition exponent_part :: "string \<Rightarrow> bool" where
  "exponent_part ex =
     (ex = [] \<or> (\<exists>sg dd. ex = CHR ''e'' # sg # dd \<and> (sg = CHR ''-'' \<or> sg = CHR ''+'') \<and>
                          digit_string dd))"

text \<open>What the parser needs of the text of a finite float, without its sign.\<close>

definition float_body :: "string \<Rightarrow> bool" where
  "float_body b =
     (b \<noteq> [] \<and> is_digit (hd b) \<and> is_digit (last b) \<and> CHR ''_'' \<notin> set b \<and>
      (\<forall>neg. parse_decimal neg b \<noteq> None))"

section \<open>Example inputs\<close>


text \<open>A test case with a \<^verbatim>\<open>failure\<close> child and an \<^verbatim>\<open>error\<close> child, not marked xfail.\<close>

definition ex_failure_error :: element where
  "ex_failure_error =
     Element ''testcase''
       [(''classname'', ''acl.test_acl''), (''file'', ''acl/test_acl.py''), (''line'', ''7''),
        (''name'', ''test_y''), (''time'', ''1.25'')]
       [Element ''failure'' [(''message'', ''assert failed'')] [],
        Element ''error'' [(''message'', ''teardown failed'')] []]"

text \<open>A document without a properties block, holding one test case.\<close>

definition ex_root_no_metadata :: element where
  "ex_root_no_metadata =
     Element ''testsuite''
       [(''name'', ''pytest''), (''time'', ''1.5''), (''tests'', ''1''), (''skipped'', ''0''),
        (''failures'', ''1''), (''errors'', ''1'')]
       [ex_failure_error]"

text \<open>A file system whose files are all larger than the size ceiling.\<close>

definition ex_env_large :: environment where
  "ex_env_large =
     \<lparr>path_exists = (\<lambda>p. True), path_isfile = (\<lambda>p. True), path_isdir = (\<lambda>p. False),
      path_getsize = (\<lambda>p. 200000001), et_parse = (\<lambda>p. Inr ex_root_no_metadata)\<rparr>"

text \<open>Two parsed cases of one feature, from an earlier and from a later document.\<close>

definition ex_case_old :: "(string \<times> pyval) list" where
  "ex_case_old = [(''name'', PStr ''test_old''), (''result'', PStr ''success'')]"

definition ex_case_new :: "(string \<times> pyval) list" where
  "ex_case_new = [(''name'', PStr ''test_new''), (''result'', PStr ''success'')]"

text \<open>
  Documents of one run with all the required metadata and no test case, for a testbed and a
  timestamp, and the metadata \<^verbatim>\<open>_parse_test_metadata\<close> reads from them.
\<close>

definition ex_property :: "string \<Rightarrow> string \<Rightarrow> element" where
  "ex_property n v = Element ''property'' [(''name'', n), (''value'', v)] []"

definition ex_run :: "string \<Rightarrow> string \<Rightarrow> element" where
  "ex_run testbed timestamp =
     Element ''testsuite''
       [(''time'', ''1.5''), (''tests'', ''0''), (''skipped'', ''0''), (''failures'', ''0''),
        (''errors'', ''0'')]
       [Element ''properties'' []
          [ex_property ''topology'' ''t0'', ex_property ''testbed'' testbed,
           ex_property ''timestamp'' timestamp, ex_property ''host'' ''sonic-1'',
           ex_property ''asic'' ''broadcom'', ex_property ''platform'' ''x86_64-dell'',
           ex_property ''hwsku'' ''S6100'', ex_property ''os_version'' ''master.100'']]"

definition ex_metadata :: "string \<Rightarrow> string \<Rightarrow> metadata" where
  "ex_metadata testbed timestamp =
     [(Some ''topology'', ''t0''), (Some ''testbed'', testbed), (Some ''timestamp'', timestamp),
      (Some ''host'', ''sonic-1''), (Some ''asic'', ''broadcom''),
      (Some ''platform'', ''x86_64-dell''), (Some ''hwsku'', ''S6100''),
      (Some ''os_version'', ''master.100'')]"

text \<open>Three timestamps in the fixed format; the earliest has no microseconds.\<close>

definition ts_a :: string where
  "ts_a = ''2024-03-02 00:00:00.000000''"
definition ts_b :: string where
  "ts_b = ''2024-03-04 08:30:00.250000''"
definition ts_c :: string where
  "ts_c = ''2024-03-05 09:15:00.500000''"

text \<open>
  An archive directory with two documents that are valid one by one and disagree on the
  testbed.
\<close>

definition ex_env_archive :: environment where
  "ex_env_archive =
     \<lparr>path_exists = (\<lambda>p. p \<in> {''results'', ''results/tr.xml'', ''results/test_2.xml''}),
      path_isfile = (\<lambda>p. p \<in> {''results/tr.xml'', ''results/test_2.xml''}),
      path_isdir = (\<lambda>p. p = ''results''),
      path_getsize = (\<lambda>p. 4096),
      et_parse = (\<lambda>p. if p = ''results/tr.xml'' then Inr (ex_run ''lab1'' ts_a)
                       else if p = ''results/test_2.xml'' then Inr (ex_run ''lab2'' ts_b)
                       else Inl (XMLLibraryError ''no element found''))\<rparr>"




section \<open>Properties of the classifier\<close>

lemma xfail_scan_eq:
  "xfail_scan ps = (if \<exists>p \<in> set ps. el_get p ''name'' = Some ''xfail'' then ''xfail_'' else '''')"
  by (induction ps) auto

lemma xfail_case_of_eq:
  "xfail_case_of tc = (if xfail_marked tc then ''xfail_'' else '''')"
  by (auto simp: xfail_case_of_def xfail_marked_def xfail_scan_eq el_iterfind_def
           split: option.splits)

lemma check_attributes_mem:
  "check_attributes tc as = Inr () \<Longrightarrow> a \<in> set as \<Longrightarrow> a \<in> set (el_keys tc)"
  by (induction as) (auto split: if_splits)

lemma validated_classname:
  assumes "validate_test_case tc = Inr ()"
  shows "\<exists>c. el_get tc ''classname'' = Some c"
proof -
  from assms have "check_attributes tc REQUIRED_TESTCASE_ATTRIBUTES = Inr ()"
    by (auto simp: validate_test_case_def split: sum.splits)
  then have "''classname'' \<in> set (el_keys tc)"
    by (rule check_attributes_mem) (simp add: REQUIRED_TESTCASE_ATTRIBUTES_def)
  then show ?thesis
    by (cases "map_of (attrib tc) ''classname''")
       (auto simp: el_keys_def el_get_def map_of_eq_None_iff)
qed

lemma parse_test_case_result:
  assumes "el_get tc ''classname'' = Some c"
  shows "\<exists>feature result. parse_test_case tc = Inr (feature, result) \<and>
           map_of result ''result'' = Some (PStr (xfail_case_of tc @ precedence_label tc)) \<and>
           map_of result ''error'' = Some (PBool (el_find ''error'' tc \<noteq> None))"
  using assms
  by (simp add: parse_test_case_def Let_def precedence_label_def AList.update_conv'
           split: option.splits prod.splits)


lemma validate_ex_failure_error: "validate_test_case ex_failure_error = Inr ()"
  by (simp add: validate_test_case_def validate_test_case_properties_def ex_failure_error_def
        REQUIRED_TESTCASE_ATTRIBUTES_def el_keys_def el_find_def TESTCASE_PROPERTIES_TAG_def)



text \<open>
  Claim C2. For a validated test-case node the parsed error flag is true if and only if an
  \<^verbatim>\<open>error\<close> child is present, whichever branch gave the result label; a case with a
  \<^verbatim>\<open>failure\<close> child and no xfail marker has the result "failure", also when an
  \<^verbatim>\<open>error\<close> child sets the flag.
\<close>

theorem error_flag_independent:
  assumes "validate_test_case test_case = Inr ()"
  shows "\<exists>feature result. parse_test_case test_case = Inr (feature, result) \<and>
           map_of result ''error'' = Some (PBool (el_find ''error'' test_case \<noteq> None)) \<and>
           (el_find ''failure'' test_case \<noteq> None \<and> \<not> xfail_marked test_case \<longrightarrow>
              map_of result ''result'' = Some (PStr ''failure''))"
proof -
  from validated_classname[OF assms] obtain c where "el_get test_case ''classname'' = Some c" ..
  from parse_test_case_result[OF this] obtain f r where
    p: "parse_test_case test_case = Inr (f, r)" and
    l: "map_of r ''result'' = Some (PStr (xfail_case_of test_case @ precedence_label test_case))" and
    e: "map_of r ''error'' = Some (PBool (el_find ''error'' test_case \<noteq> None))"
    by blast
  have "el_find ''failure'' test_case \<noteq> None \<and> \<not> xfail_marked test_case \<longrightarrow>
          map_of r ''result'' = Some (PStr ''failure'')"
    using l by (simp add: xfail_case_of_eq precedence_label_def)
  with p e show ?thesis by blast
qed

theorem error_flag_independent_witness:
  "validate_test_case ex_failure_error = Inr () \<and>
   el_find ''failure'' ex_failure_error \<noteq> None \<and>
   el_find ''error'' ex_failure_error \<noteq> None \<and>
   \<not> xfail_marked ex_failure_error \<and>
   (\<exists>feature result. parse_test_case ex_failure_error = Inr (feature, result) \<and>
      map_of result ''result'' = Some (PStr ''failure'') \<and>
      map_of result ''error'' = Some (PBool True))"
proof -
  have f: "el_find ''failure'' ex_failure_error \<noteq> None"
    by (simp add: ex_failure_error_def el_find_def)
  have e: "el_find ''error'' ex_failure_error \<noteq> None"
    by (simp add: ex_failure_error_def el_find_def)
  have x: "\<not> xfail_marked ex_failure_error"
    by (simp add: xfail_marked_def ex_failure_error_def el_find_def PROPERTIES_TAG_def)
  from error_flag_independent[OF validate_ex_failure_error] validate_ex_failure_error f e x
  show ?thesis by auto
qed

section \<open>Evaluating the number parsers\<close>

lemmas char_eval = py_isspace_def is_digit_def digit_val_def digits_val_def to_lower_def

lemma int_evals:
  "py_int_str ''0'' = Inr 0" "py_int_str ''1'' = Inr 1" "py_int_str ''2'' = Inr 2"
  "py_int_str ''5'' = Inr 5"
  by (simp_all add: py_int_str_def py_strip_def split_sign_def char_eval)

lemma to_double_15_10: "to_double False 15 10 = Finite False 6755399441055744 (- 52)"
proof -
  have "ilog2 15 10 = 0"
    by (simp add: ilog2_def ratio_ge_pow2_def bit_length.simps)
  then show ?thesis
    by (simp add: to_double_def round_half_even_def Let_def)
qed

lemma float_1_5: "py_float_str ''1.5'' = Inr (Finite False 6755399441055744 (- 52))"
proof -
  have 1: "py_strip ''1.5'' = ''1.5''" by (simp add: py_strip_def char_eval)
  have 2: "strip_underscores (CHR 0x00) ''1.5'' = Some ''1.5''" by (simp add: char_eval)
  have 3: "parse_decimal False ''1.5'' = Some (to_double False 15 10)"
    by (simp add: parse_decimal_def parse_exponent_def char_eval dec_num_def dec_den_def)
  show ?thesis
    by (simp add: py_float_str_def 1 2 3 split_sign_def to_lower_def to_double_15_10)
qed

section \<open>Properties of validation\<close>

text \<open>
  Claim C9. A stream or a file whose size exceeds \<^verbatim>\<open>MAXIMUM_XML_SIZE\<close> is rejected with a
  validation error, and no tree is built: the list of events is empty.
\<close>

theorem size_check_precedes_parsing:
  "(MAXIMUM_XML_SIZE < getsizeof stream \<longrightarrow>
      validate_junit_xml_stream getsizeof fromstring stream =
        ([], Inl (JUnitXMLValidationError StreamTooLarge))) \<and>
   (MAXIMUM_XML_SIZE < path_getsize env document_name \<longrightarrow>
      (\<exists>msg. validate_junit_xml_file env document_name =
               ([], Inl (JUnitXMLValidationError msg))))"
  by (simp add: validate_junit_xml_stream_def validate_junit_xml_file_def)

theorem size_check_precedes_parsing_witness:
  "MAXIMUM_XML_SIZE < (\<lambda>s. 200000001) ''<testsuite/>'' \<and>
   validate_junit_xml_stream (\<lambda>s. 200000001) (\<lambda>s. Inr ex_root_no_metadata) ''<testsuite/>'' =
     ([], Inl (JUnitXMLValidationError StreamTooLarge)) \<and>
   MAXIMUM_XML_SIZE < path_getsize ex_env_large ''tr.xml'' \<and>
   validate_junit_xml_file ex_env_large ''tr.xml'' = ([], Inl (JUnitXMLValidationError FileTooLarge))"
proof -
  have a: "MAXIMUM_XML_SIZE < (\<lambda>s. 200000001) ''<testsuite/>''"
    by (simp add: MAXIMUM_XML_SIZE_def)
  have b: "MAXIMUM_XML_SIZE < path_getsize ex_env_large ''tr.xml''"
    by (simp add: MAXIMUM_XML_SIZE_def ex_env_large_def)
  have c: "validate_junit_xml_file ex_env_large ''tr.xml'' \<noteq> ([], Inl (JUnitXMLValidationError m))"
    if "m \<noteq> FileTooLarge" for m
    using that by (simp add: validate_junit_xml_file_def ex_env_large_def MAXIMUM_XML_SIZE_def)
  from size_check_precedes_parsing
         [of "\<lambda>s. 200000001" "''<testsuite/>''" "\<lambda>s. Inr ex_root_no_metadata" ex_env_large "''tr.xml''"]
       a b c
  show ?thesis by (metis (no_types, lifting))
qed

lemma scan_properties_seen:
  "scan_properties req ps seen = Inr seen' \<Longrightarrow>
   set seen' = set seen \<union>
     {n. \<exists>p \<in> set ps. el_get p ''name'' = Some n \<and> n \<noteq> [] \<and> n \<in> set req}"
proof (induction ps arbitrary: seen)
  case Nil
  then show ?case by simp
next
  case (Cons p ps)
  show ?case
  proof (cases "el_get p ''name''")
    case None
    with Cons show ?thesis by auto
  next
    case (Some n)
    with Cons show ?thesis
      by (auto split: if_splits option.splits)
  qed
qed

lemma scan_properties_error:
  "scan_properties req ps seen = Inl e \<Longrightarrow> e \<noteq> JUnitXMLValidationError MissingMetadata"
  by (induction ps arbitrary: seen) (auto split: option.splits if_splits)

lemma validate_summary_ex_root_no_metadata: "validate_test_summary ex_root_no_metadata = Inr ()"
  by (simp add: validate_test_summary_def ex_root_no_metadata_def TESTSUITE_TAG_def
        REQUIRED_TESTSUITE_ATTRIBUTES_def el_get_def float_1_5 int_evals)

lemma validate_cases_ex_root_no_metadata: "validate_test_cases ex_root_no_metadata = Inr ()"
  by (simp add: validate_test_cases_def ex_root_no_metadata_def el_iterfind_def TESTCASE_TAG_def
        validate_ex_failure_error)

text \<open>
  Claim C10. When the root has no properties element, or one without children, metadata
  validation returns without checking any required key, so such a document passes the whole
  validation when its summary attributes and its test cases do. The missing-metadata error is
  raised only for a properties block with children whose recognised names do not cover the
  required keys.
\<close>

theorem metadata_check_skipped_without_properties:
  "((el_find PROPERTIES_TAG root = None \<or>
     (\<exists>pe. el_find PROPERTIES_TAG root = Some pe \<and> children pe = [])) \<longrightarrow>
      validate_test_metadata root = Inr () \<and>
      (validate_test_summary root = Inr () \<and> validate_test_cases root = Inr () \<longrightarrow>
         validate_junit_xml root = Inr root)) \<and>
   (validate_test_metadata root = Inl (JUnitXMLValidationError MissingMetadata) \<longrightarrow>
      (\<exists>pe. el_find PROPERTIES_TAG root = Some pe \<and> children pe \<noteq> [] \<and>
            \<not> set REQUIRED_METADATA_PROPERTIES \<subseteq> recognized pe))"
proof (intro conjI impI)
  assume a: "el_find PROPERTIES_TAG root = None \<or>
     (\<exists>pe. el_find PROPERTIES_TAG root = Some pe \<and> children pe = [])"
  then show m: "validate_test_metadata root = Inr ()"
    by (auto simp: validate_test_metadata_def)
  assume "validate_test_summary root = Inr () \<and> validate_test_cases root = Inr ()"
  with m show "validate_junit_xml root = Inr root"
    by (simp add: validate_junit_xml_def)
next
  assume e: "validate_test_metadata root = Inl (JUnitXMLValidationError MissingMetadata)"
  then obtain pe where pe: "el_find PROPERTIES_TAG root = Some pe" "children pe \<noteq> []"
    by (auto simp: validate_test_metadata_def split: option.splits if_splits)
  with e obtain seen where
    s: "scan_properties REQUIRED_METADATA_PROPERTIES (el_iterfind PROPERTY_TAG pe) [] = Inr seen"
    and sub: "set seen \<subset> set REQUIRED_METADATA_PROPERTIES"
    using scan_properties_error
    by (auto simp: validate_test_metadata_def split: sum.splits if_splits)
  from scan_properties_seen[OF s] have "set seen = recognized pe"
    by (simp add: recognized_def)
  with sub have "\<not> set REQUIRED_METADATA_PROPERTIES \<subseteq> recognized pe" by auto
  with pe show "\<exists>pe. el_find PROPERTIES_TAG root = Some pe \<and> children pe \<noteq> [] \<and>
            \<not> set REQUIRED_METADATA_PROPERTIES \<subseteq> recognized pe" by blast
qed

text \<open>
  A document with no properties block, and so with none of the required metadata keys,
  passes the whole validation.
\<close>

theorem metadata_check_skipped_without_properties_witness:
  "el_find PROPERTIES_TAG ex_root_no_metadata = None \<and>
   parse_test_metadata ex_root_no_metadata = [] \<and>
   validate_test_summary ex_root_no_metadata = Inr () \<and>
   validate_test_cases ex_root_no_metadata = Inr () \<and>
   validate_test_metadata ex_root_no_metadata = Inr () \<and>
   validate_junit_xml ex_root_no_metadata = Inr ex_root_no_metadata"
proof -
  have n: "el_find PROPERTIES_TAG ex_root_no_metadata = None"
    by (simp add: el_find_def ex_root_no_metadata_def PROPERTIES_TAG_def ex_failure_error_def)
  have p: "parse_test_metadata ex_root_no_metadata = []"
    by (simp add: parse_test_metadata_def n)
  from metadata_check_skipped_without_properties[of ex_root_no_metadata] n p
       validate_summary_ex_root_no_metadata validate_cases_ex_root_no_metadata
  show ?thesis by simp
qed

section \<open>Properties of the merge of test cases\<close>

lemma update_fold_map_of:
  fixes current :: "(string \<times> 'c list) list"
  defines "step \<equiv> (\<lambda>(group, cases) new_cases.
                   let updated_cases =
                         (case map_of new_cases group of
                            None \<Rightarrow> cases
                          | Some old \<Rightarrow> cases @ old)
                   in AList.update group updated_cases new_cases)"
  shows "distinct (map fst update) \<Longrightarrow>
   map_of (fold step update current) g =
   (case map_of update g of
      None \<Rightarrow> map_of current g
    | Some cs \<Rightarrow> Some (cs @ (case map_of current g of None \<Rightarrow> [] | Some old \<Rightarrow> old)))"
proof (induction update arbitrary: current)
  case Nil
  then show ?case by simp
next
  case (Cons a update)
  obtain k v where a: "a = (k, v)" by (cases a)
  from Cons.prems a have d: "distinct (map fst update)" and k: "k \<notin> fst ` set update" by auto
  from k have kn: "map_of update k = None" by (simp add: map_of_eq_None_iff)
  have st: "map_of (step (k, v) current) g' =
          (if g' = k then Some (v @ (case map_of current k of None \<Rightarrow> [] | Some old \<Rightarrow> old))
           else map_of current g')" for g'
    by (simp add: step_def Let_def AList.update_conv' split: option.splits)
  have "map_of (fold step (a # update) current) g = map_of (fold step update (step a current)) g"
    by simp
  also have "\<dots> = (case map_of update g of
      None \<Rightarrow> map_of (step a current) g
    | Some cs \<Rightarrow> Some (cs @ (case map_of (step a current) g of None \<Rightarrow> [] | Some old \<Rightarrow> old)))"
    by (rule Cons.IH[OF d])
  also have "\<dots> = (case map_of (a # update) g of
      None \<Rightarrow> map_of current g
    | Some cs \<Rightarrow> Some (cs @ (case map_of current g of None \<Rightarrow> [] | Some old \<Rightarrow> old)))"
  proof (cases "g = k")
    case True
    then show ?thesis using kn unfolding a by (simp add: st)
  next
    case False
    then show ?thesis unfolding a by (simp add: st cong: option.case_cong)
  qed
  finally show ?case .
qed

text \<open>
  Claim C5, as the code has it. For each feature key of the incoming mapping the aggregate
  gets the incoming case list followed by the list it already had for that key (the key is
  created when absent); the other keys are unchanged. Within a feature the cases of a
  later-processed document therefore come before those of the documents processed earlier.
\<close>

theorem incoming_cases_first:
  assumes "distinct (map fst update)"
  shows "map_of (update_test_cases current update) g =
           (case map_of update g of
              None \<Rightarrow> map_of current g
            | Some cs \<Rightarrow> Some (cs @ (case map_of current g of None \<Rightarrow> [] | Some old \<Rightarrow> old)))"
proof (cases "current = []")
  case True
  then show ?thesis by (simp add: update_test_cases_def split: option.splits)
next
  case False
  then show ?thesis
    unfolding update_test_cases_def using update_fold_map_of[OF assms, of current g] by simp
qed

theorem incoming_cases_first_witness:
  "distinct (map fst [(''bgp'', [ex_case_new])]) \<and>
   map_of (update_test_cases [(''bgp'', [ex_case_old])] [(''bgp'', [ex_case_new])]) ''bgp'' =
     Some [ex_case_new, ex_case_old]"
  using incoming_cases_first[of "[(''bgp'', [ex_case_new])]" "[(''bgp'', [ex_case_old])]" "''bgp''"]
  by simp

text \<open>
  The claim as the specification words it fails: the aggregate holds the case of an earlier
  document, a later document brings a case of the same feature, and the merged list does not
  have the earlier case first.
\<close>

theorem appended_after_counterexample:
  "update_test_cases [(''bgp'', [ex_case_old])] [(''bgp'', [ex_case_new])] =
     [(''bgp'', [ex_case_new, ex_case_old])] \<and>
   map_of (update_test_cases [(''bgp'', [ex_case_old])] [(''bgp'', [ex_case_new])]) ''bgp'' \<noteq>
     Some ([ex_case_old] @ [ex_case_new])"
  by (simp add: update_test_cases_def ex_case_old_def ex_case_new_def)

section \<open>Evaluating the example documents\<close>

lemma parse_metadata_ex_run:
  "testbed \<noteq> [] \<Longrightarrow> timestamp \<noteq> [] \<Longrightarrow>
   parse_test_metadata (ex_run testbed timestamp) = ex_metadata testbed timestamp"
  by (simp add: parse_test_metadata_def ex_run_def ex_property_def ex_metadata_def el_find_def
        el_iterfind_def el_get_def PROPERTIES_TAG_def PROPERTY_TAG_def)

lemma required_metadata_ex_run:
  "testbed \<noteq> [] \<Longrightarrow> timestamp \<noteq> [] \<Longrightarrow>
   required_metadata (ex_run testbed timestamp) =
     [(Some ''topology'', ''t0''), (Some ''testbed'', testbed),
      (Some ''host'', ''sonic-1''), (Some ''asic'', ''broadcom''),
      (Some ''platform'', ''x86_64-dell''), (Some ''hwsku'', ''S6100''),
      (Some ''os_version'', ''master.100'')]"
  by (simp add: required_metadata_def parse_metadata_ex_run ex_metadata_def
        REQUIRED_METADATA_PROPERTIES_def)

lemma validate_metadata_ex_run:
  "validate_test_metadata (ex_run testbed timestamp) = Inr ()"
  by (simp add: validate_test_metadata_def ex_run_def ex_property_def el_find_def
        el_iterfind_def el_get_def PROPERTIES_TAG_def PROPERTY_TAG_def
        REQUIRED_METADATA_PROPERTIES_def)


lemmas strptime_eval =
  strptime_def parse_date_def parse_clock_def parse_year_def parse_day_def parse_fraction_def
  take_field_def field_def expect_def days_in_month_def is_leap_def char_eval

lemma digit_chars:
  "digit_char 0 = CHR ''0''" "digit_char (Suc 0) = CHR ''1''" "digit_char 2 = CHR ''2''"
  "digit_char 3 = CHR ''3''" "digit_char 4 = CHR ''4''" "digit_char 5 = CHR ''5''"
  "digit_char 6 = CHR ''6''" "digit_char 7 = CHR ''7''" "digit_char 8 = CHR ''8''"
  "digit_char 9 = CHR ''9''"
  by (simp_all add: digit_char_def char_of_eq_iff)

lemmas str_datetime_eval = zero_pad_def digits_of.simps digit_chars

lemma strptime_ts:
  "strptime ts_a = Inr (DateTime 2024 3 2 0 0 0 0)"
  "strptime ts_b = Inr (DateTime 2024 3 4 8 30 0 250000)"
  "strptime ts_c = Inr (DateTime 2024 3 5 9 15 0 500000)"
  "strptime ''2024-03-02 00:00:00'' = Inl ValueError"
  by (simp_all add: ts_a_def ts_b_def ts_c_def strptime_eval)

lemma str_dt:
  "str_datetime (DateTime 2024 3 2 0 0 0 0) = ''2024-03-02 00:00:00''"
  "str_datetime (DateTime 2024 3 4 8 30 0 250000) = ''2024-03-04 08:30:00.250000''"
  by (simp_all add: str_datetime_eval)

lemma dt_mins:
  "dt_min (DateTime 2024 3 2 0 0 0 0) (DateTime 2024 3 4 8 30 0 250000) = DateTime 2024 3 2 0 0 0 0"
  "dt_min (DateTime 2024 3 4 8 30 0 250000) (DateTime 2024 3 5 9 15 0 500000) = DateTime 2024 3 4 8 30 0 250000"
  "dt_min (DateTime 2024 3 4 8 30 0 250000) (DateTime 2024 3 2 0 0 0 0) = DateTime 2024 3 2 0 0 0 0"
  by (simp_all add: dt_min_def dt_less_def)

lemma merge_ab:
  "update_test_metadata (ex_metadata ''lab1'' ts_a) (ex_metadata ''lab1'' ts_b) =
     Inr (ex_metadata ''lab1'' ''2024-03-02 00:00:00'')"
  by (simp add: update_test_metadata_def ex_metadata_def REQUIRED_METADATA_PROPERTIES_def
        meta_item_def strptime_ts str_datetime_eval dt_mins)

lemma merge_abc:
  "update_test_metadata (ex_metadata ''lab1'' ''2024-03-02 00:00:00'') (ex_metadata ''lab1'' ts_c) =
     Inl ValueError"
  by (simp add: update_test_metadata_def ex_metadata_def REQUIRED_METADATA_PROPERTIES_def
        meta_item_def strptime_ts)

lemma merge_bc:
  "update_test_metadata (ex_metadata ''lab1'' ts_b) (ex_metadata ''lab1'' ts_c) =
     Inr (ex_metadata ''lab1'' ts_b)"
  by (simp add: update_test_metadata_def ex_metadata_def REQUIRED_METADATA_PROPERTIES_def
        meta_item_def strptime_ts str_datetime_eval dt_mins)
     (simp add: ts_b_def)

lemma merge_bca:
  "update_test_metadata (ex_metadata ''lab1'' ts_b) (ex_metadata ''lab1'' ts_a) =
     Inr (ex_metadata ''lab1'' ''2024-03-02 00:00:00'')"
  by (simp add: update_test_metadata_def ex_metadata_def REQUIRED_METADATA_PROPERTIES_def
        meta_item_def strptime_ts str_datetime_eval dt_mins)

lemma ts_nonempty: "ts_a \<noteq> []" "ts_b \<noteq> []" "ts_c \<noteq> []"
  by (simp_all add: ts_a_def ts_b_def ts_c_def)

lemma no_cases_ex_run: "parse_test_cases (ex_run testbed timestamp) = Inr []"
  by (simp add: parse_test_cases_def ex_run_def el_iterfind_def)

lemma fold_root_ex_run:
  "testbed \<noteq> [] \<Longrightarrow> timestamp \<noteq> [] \<Longrightarrow>
   fold_root (ex_run testbed timestamp) r =
     (case update_test_metadata (test_metadata r) (ex_metadata testbed timestamp) of
        Inl e \<Rightarrow> Inl e
      | Inr md \<Rightarrow>
          (case update_test_summary (test_summary r) [] of
             Inl e \<Rightarrow> Inl e
           | Inr sm \<Rightarrow>
               Inr \<lparr>test_metadata = md, test_cases = update_test_cases (test_cases r) [],
                    test_summary = sm\<rparr>))"
  by (simp add: fold_root_def parse_metadata_ex_run no_cases_ex_run extract_test_summary_def
        cong: sum.case_cong)

lemma validate_ex_run: "validate_junit_xml (ex_run testbed timestamp) = Inr (ex_run testbed timestamp)"
proof -
  have s: "validate_test_summary (ex_run testbed timestamp) = Inr ()"
    by (simp add: validate_test_summary_def ex_run_def TESTSUITE_TAG_def
          REQUIRED_TESTSUITE_ATTRIBUTES_def el_get_def float_1_5 int_evals)
  have c: "validate_test_cases (ex_run testbed timestamp) = Inr ()"
    by (simp add: validate_test_cases_def ex_run_def el_iterfind_def TESTCASE_TAG_def)
  show ?thesis
    by (simp add: validate_junit_xml_def s c validate_metadata_ex_run)
qed

lemma validate_file_ex:
  "validate_junit_xml_file ex_env_archive ''results/tr.xml'' =
     ([TreeBuilt ''results/tr.xml''], Inr (ex_run ''lab1'' ts_a))"
  "validate_junit_xml_file ex_env_archive ''results/test_2.xml'' =
     ([TreeBuilt ''results/test_2.xml''], Inr (ex_run ''lab2'' ts_b))"
  by (simp_all add: validate_junit_xml_file_def ex_env_archive_def MAXIMUM_XML_SIZE_def
        validate_ex_run)

section \<open>Properties of the metadata merge\<close>

text \<open>
  Claim C8, evaluated on the code. Three documents contribute timestamps that all parse with
  the fixed format. Folded earliest first, the merge of the first two writes the minimum
  back with \<^verbatim>\<open>str\<close>, which leaves out the microseconds when they are zero, and the
  merge of the third document fails with \<^verbatim>\<open>ValueError\<close> on that text. Folded in another
  order the same three documents give the earliest timestamp.
\<close>

theorem earliest_timestamp_third_document_fails:
  "strptime ts_a = Inr (DateTime 2024 3 2 0 0 0 0) \<and>
   strptime ts_b = Inr (DateTime 2024 3 4 8 30 0 250000) \<and>
   strptime ts_c = Inr (DateTime 2024 3 5 9 15 0 500000) \<and>
   parse_test_result [ex_run ''lab1'' ts_a, ex_run ''lab1'' ts_b, ex_run ''lab1'' ts_c] =
     Inl ValueError \<and>
   parse_test_result [ex_run ''lab1'' ts_b, ex_run ''lab1'' ts_c, ex_run ''lab1'' ts_a] =
     Inr (Some \<lparr>test_metadata = ex_metadata ''lab1'' ''2024-03-02 00:00:00'',
                 test_cases = [], test_summary = []\<rparr>)"
proof -
  have e: "update_test_metadata [] m = Inr m" for m
    by (simp add: update_test_metadata_def)
  have s: "update_test_summary [] [] = Inr []"
    by (simp add: update_test_summary_def)
  have c: "update_test_cases [] [] = ([] :: (string \<times> (string \<times> pyval) list list) list)"
    by (simp add: update_test_cases_def)
  show ?thesis
    by (simp add: strptime_ts parse_test_result_def empty_result_def fold_root_ex_run ts_nonempty
          e s c merge_ab merge_abc merge_bc merge_bca)
qed


section \<open>Properties of the archive scan\<close>

lemma map_of_filter_key:
  "map_of (filter (\<lambda>(k, v). Q k) xs) k = (if Q k then map_of xs k else None)"
  by (induction xs) auto

lemma distinct_fold_update:
  "distinct (map fst d) \<Longrightarrow>
   distinct (map fst (fold (\<lambda>prop d.
                       case el_get prop ''value'' of
                         None \<Rightarrow> d
                       | Some v \<Rightarrow> if v = [] then d else AList.update (el_get prop ''name'') v d)
                 ps d))"
  by (induction ps arbitrary: d) (auto simp: AList.distinct_update split: option.splits)

lemma distinct_parse_test_metadata: "distinct (map fst (parse_test_metadata root))"
  unfolding parse_test_metadata_def
  by (auto split: option.splits intro!: distinct_fold_update)

lemma distinct_required_metadata: "distinct (map fst (required_metadata root))"
  unfolding required_metadata_def
  by (simp add: distinct_map_filter distinct_parse_test_metadata)

lemma required_metadata_lookup:
  "k \<in> set REQUIRED_METADATA_PROPERTIES \<Longrightarrow> k \<noteq> ''timestamp'' \<Longrightarrow>
   map_of (required_metadata root) (Some k) = map_of (parse_test_metadata root) (Some k)"
proof -
  assume a: "k \<in> set REQUIRED_METADATA_PROPERTIES" "k \<noteq> ''timestamp''"
  have "map_of (required_metadata root) (Some k) =
        (if (case Some k of None \<Rightarrow> False
             | Some n \<Rightarrow> n \<in> set REQUIRED_METADATA_PROPERTIES \<and> n \<noteq> ''timestamp'')
         then map_of (parse_test_metadata root) (Some k) else None)"
    unfolding required_metadata_def by (rule map_of_filter_key)
  with a show ?thesis by simp
qed

lemma disagreement_not_dict_eq:
  assumes "k \<in> set REQUIRED_METADATA_PROPERTIES" "k \<noteq> ''timestamp''"
    and "map_of (parse_test_metadata root1) (Some k) \<noteq> map_of (parse_test_metadata root2) (Some k)"
  shows "\<not> dict_eq (required_metadata root2) (required_metadata root1)"
proof
  assume "dict_eq (required_metadata root2) (required_metadata root1)"
  then have "map_of (required_metadata root2) = map_of (required_metadata root1)"
    unfolding dict_eq_def
    using map_of_inject_set[OF distinct_required_metadata distinct_required_metadata] by blast
  then have "map_of (required_metadata root2) (Some k) = map_of (required_metadata root1) (Some k)"
    by simp
  with assms show False by (simp add: required_metadata_lookup)
qed

lemma scan_two_documents:
  assumes v1: "validate_junit_xml_file env d1 = (evs1, Inr root1)"
    and v2: "validate_junit_xml_file env d2 = (evs2, Inr root2)"
    and m1: "required_metadata root1 \<noteq> []" and m2: "required_metadata root2 \<noteq> []"
    and ne: "\<not> dict_eq (required_metadata root2) (required_metadata root1)"
    and d1: "d1 \<noteq> ''''"
  shows "scan_documents env strict [d1, d2] \<lparr>roots = [], metadata_source = None, scan_metadata = []\<rparr> =
           (if strict
            then (evs1 @ evs2,
                  Inl (JUnitXMLValidationError (CouldNotParse d2 (JUnitXMLValidationError
                        (MetadataDiffers d2 d1 (required_metadata root2) (required_metadata root1))))))
            else (evs1 @ evs2 @ [Printed (Skipping d2 (JUnitXMLValidationError
                        (MetadataDiffers d2 d1 (required_metadata root2) (required_metadata root1))))],
                  Inr \<lparr>roots = [root1], metadata_source = Some d1,
                       scan_metadata = required_metadata root1\<rparr>))"
proof -
  have s1: "scan_document env d1 \<lparr>roots = [], metadata_source = None, scan_metadata = []\<rparr> =
              (evs1, Inr \<lparr>roots = [root1], metadata_source = Some d1,
                           scan_metadata = required_metadata root1\<rparr>)"
    using m1 by (simp add: scan_document_def v1 Let_def dict_eq_def)
  have s2: "scan_document env d2 \<lparr>roots = [root1], metadata_source = Some d1,
                           scan_metadata = required_metadata root1\<rparr> =
              (evs2, Inl (JUnitXMLValidationError
                        (MetadataDiffers d2 d1 (required_metadata root2) (required_metadata root1))))"
    using m2 ne d1 by (simp add: scan_document_def v2 Let_def)
  show ?thesis by (simp add: s1 s2)
qed

text \<open>
  Claim C4, as the code has it. Two documents pass validation one by one, both carry
  required metadata, and they disagree on a required key other than the timestamp. In
  lenient mode the scan does not raise: the document scanned second is skipped, a diagnostic
  naming both documents and both metadata mappings is printed, and the first root is
  returned. In strict mode the same disagreement is raised as a validation error.
\<close>

theorem lenient_mode_skips_conflicting_document:
  assumes "path_exists env directory_name" "path_isdir env directory_name"
    and "path_getsize env d1 + path_getsize env d2 \<le> MAXIMUM_XML_SIZE"
    and "validate_junit_xml_file env d1 = (evs1, Inr root1)"
    and "validate_junit_xml_file env d2 = (evs2, Inr root2)"
    and "required_metadata root1 \<noteq> []" and "required_metadata root2 \<noteq> []"
    and "k \<in> set REQUIRED_METADATA_PROPERTIES" and "k \<noteq> ''timestamp''"
    and "map_of (parse_test_metadata root1) (Some k) \<noteq> map_of (parse_test_metadata root2) (Some k)"
    and "d1 \<noteq> ''''"
  shows "validate_junit_xml_archive env directory_name [d1, d2] False =
           (evs1 @ evs2 @ [Printed (Skipping d2 (JUnitXMLValidationError
               (MetadataDiffers d2 d1 (required_metadata root2) (required_metadata root1))))],
            Inr (Some [root1])) \<and>
         validate_junit_xml_archive env directory_name [d1, d2] True =
           (evs1 @ evs2,
            Inl (JUnitXMLValidationError (CouldNotParse d2 (JUnitXMLValidationError
               (MetadataDiffers d2 d1 (required_metadata root2) (required_metadata root1))))))"
proof -
  have ne: "\<not> dict_eq (required_metadata root2) (required_metadata root1)"
    using assms(8-10) by (rule disagreement_not_dict_eq)
  note s = scan_two_documents[OF assms(4) assms(5) assms(6) assms(7) ne assms(11)]
  show ?thesis
    using assms(1-3) by (simp add: validate_junit_xml_archive_def s del: scan_documents.simps)
qed

theorem lenient_mode_skips_conflicting_document_witness:
  "validate_junit_xml_file ex_env_archive ''results/tr.xml'' =
     ([TreeBuilt ''results/tr.xml''], Inr (ex_run ''lab1'' ts_a)) \<and>
   validate_junit_xml_file ex_env_archive ''results/test_2.xml'' =
     ([TreeBuilt ''results/test_2.xml''], Inr (ex_run ''lab2'' ts_b)) \<and>
   map_of (parse_test_metadata (ex_run ''lab1'' ts_a)) (Some ''testbed'') = Some ''lab1'' \<and>
   map_of (parse_test_metadata (ex_run ''lab2'' ts_b)) (Some ''testbed'') = Some ''lab2'' \<and>
   validate_junit_xml_archive ex_env_archive ''results''
       [''results/tr.xml'', ''results/test_2.xml''] False =
     ([TreeBuilt ''results/tr.xml'', TreeBuilt ''results/test_2.xml'',
       Printed (Skipping ''results/test_2.xml'' (JUnitXMLValidationError
         (MetadataDiffers ''results/test_2.xml'' ''results/tr.xml''
            (required_metadata (ex_run ''lab2'' ts_b)) (required_metadata (ex_run ''lab1'' ts_a)))))],
      Inr (Some [ex_run ''lab1'' ts_a])) \<and>
   validate_junit_xml_archive ex_env_archive ''results''
       [''results/tr.xml'', ''results/test_2.xml''] True =
     ([TreeBuilt ''results/tr.xml'', TreeBuilt ''results/test_2.xml''],
      Inl (JUnitXMLValidationError (CouldNotParse ''results/test_2.xml'' (JUnitXMLValidationError
         (MetadataDiffers ''results/test_2.xml'' ''results/tr.xml''
            (required_metadata (ex_run ''lab2'' ts_b)) (required_metadata (ex_run ''lab1'' ts_a)))))))"
proof -
  have t1: "map_of (parse_test_metadata (ex_run ''lab1'' ts_a)) (Some ''testbed'') = Some ''lab1''"
    by (simp add: parse_metadata_ex_run ts_nonempty ex_metadata_def)
  have t2: "map_of (parse_test_metadata (ex_run ''lab2'' ts_b)) (Some ''testbed'') = Some ''lab2''"
    by (simp add: parse_metadata_ex_run ts_nonempty ex_metadata_def)
  have r1: "required_metadata (ex_run ''lab1'' ts_a) \<noteq> []"
    by (simp add: required_metadata_ex_run ts_nonempty)
  have r2: "required_metadata (ex_run ''lab2'' ts_b) \<noteq> []"
    by (simp add: required_metadata_ex_run ts_nonempty)
  have e: "path_exists ex_env_archive ''results''" "path_isdir ex_env_archive ''results''"
    by (simp_all add: ex_env_archive_def)
  have z: "path_getsize ex_env_archive ''results/tr.xml'' +
           path_getsize ex_env_archive ''results/test_2.xml'' \<le> MAXIMUM_XML_SIZE"
    by (simp add: ex_env_archive_def MAXIMUM_XML_SIZE_def)
  have k: "''testbed'' \<in> set REQUIRED_METADATA_PROPERTIES" "''testbed'' \<noteq> ''timestamp''"
    by (simp_all add: REQUIRED_METADATA_PROPERTIES_def)
  have d: "map_of (parse_test_metadata (ex_run ''lab1'' ts_a)) (Some ''testbed'') \<noteq>
           map_of (parse_test_metadata (ex_run ''lab2'' ts_b)) (Some ''testbed'')"
    by (simp add: t1 t2)
  have n: "''results/tr.xml'' \<noteq> ''''" by simp
  from lenient_mode_skips_conflicting_document
         [OF e z validate_file_ex(1) validate_file_ex(2) r1 r2 k d n]
       validate_file_ex t1 t2
  show ?thesis by simp
qed

text \<open>
  The claim as the specification words it fails: both documents are valid, they disagree on
  the testbed, and lenient mode returns the first root, which then parses to a result.
\<close>

theorem lenient_conflict_counterexample:
  "snd (validate_junit_xml_file ex_env_archive ''results/tr.xml'') = Inr (ex_run ''lab1'' ts_a) \<and>
   snd (validate_junit_xml_file ex_env_archive ''results/test_2.xml'') = Inr (ex_run ''lab2'' ts_b) \<and>
   map_of (parse_test_metadata (ex_run ''lab1'' ts_a)) (Some ''testbed'') = Some ''lab1'' \<and>
   map_of (parse_test_metadata (ex_run ''lab2'' ts_b)) (Some ''testbed'') = Some ''lab2'' \<and>
   snd (validate_junit_xml_archive ex_env_archive ''results''
          [''results/tr.xml'', ''results/test_2.xml''] False) = Inr (Some [ex_run ''lab1'' ts_a]) \<and>
   parse_test_result [ex_run ''lab1'' ts_a] =
     Inr (Some \<lparr>test_metadata = ex_metadata ''lab1'' ts_a, test_cases = [], test_summary = []\<rparr>)"
proof -
  have t1: "map_of (parse_test_metadata (ex_run ''lab1'' ts_a)) (Some ''testbed'') = Some ''lab1''"
    by (simp add: parse_metadata_ex_run ts_nonempty ex_metadata_def)
  have t2: "map_of (parse_test_metadata (ex_run ''lab2'' ts_b)) (Some ''testbed'') = Some ''lab2''"
    by (simp add: parse_metadata_ex_run ts_nonempty ex_metadata_def)
  have ne: "\<not> dict_eq (required_metadata (ex_run ''lab2'' ts_b)) (required_metadata (ex_run ''lab1'' ts_a))"
    by (rule disagreement_not_dict_eq[of "''testbed''"])
       (simp_all add: REQUIRED_METADATA_PROPERTIES_def t1 t2)
  have r1: "required_metadata (ex_run ''lab1'' ts_a) \<noteq> []"
    by (simp add: required_metadata_ex_run ts_nonempty)
  have r2: "required_metadata (ex_run ''lab2'' ts_b) \<noteq> []"
    by (simp add: required_metadata_ex_run ts_nonempty)
  have n: "''results/tr.xml'' \<noteq> ''''" by simp
  note s = scan_two_documents[OF validate_file_ex(1) validate_file_ex(2) r1 r2 ne n, of False]
  have a: "snd (validate_junit_xml_archive ex_env_archive ''results''
          [''results/tr.xml'', ''results/test_2.xml''] False) = Inr (Some [ex_run ''lab1'' ts_a])"
  proof -
    have e: "path_exists ex_env_archive ''results''" "path_isdir ex_env_archive ''results''"
      "\<not> MAXIMUM_XML_SIZE < path_getsize ex_env_archive ''results/tr.xml'' +
           path_getsize ex_env_archive ''results/test_2.xml''"
      by (simp_all add: ex_env_archive_def MAXIMUM_XML_SIZE_def)
    show ?thesis
      by (simp add: validate_junit_xml_archive_def s e del: scan_documents.simps)
  qed
  have p: "parse_test_result [ex_run ''lab1'' ts_a] =
     Inr (Some \<lparr>test_metadata = ex_metadata ''lab1'' ts_a, test_cases = [], test_summary = []\<rparr>)"
    by (simp add: parse_test_result_def empty_result_def fold_root_ex_run ts_nonempty
          update_test_metadata_def update_test_summary_def update_test_cases_def)
  show ?thesis
    by (simp add: validate_file_ex t1 t2 a p)
qed


section \<open>The printed numbers parse back\<close>

lemma of_char_digit_char: "d < 10 \<Longrightarrow> (of_char (digit_char d) :: nat) = 48 + d"
  by (simp add: digit_char_def)

lemma digit_char_props:
  assumes "d < 10"
  shows "is_digit (digit_char d)" "digit_val (digit_char d) = d"
  using assms by (simp_all add: is_digit_def digit_val_def of_char_digit_char)

lemma digits_of_all_digits: "list_all is_digit (digits_of n)"
proof (induction n rule: digits_of.induct)
  case (1 n)
  show ?case
  proof (cases "n < 10")
    case True
    then show ?thesis by (subst digits_of.simps) (simp add: digit_char_props)
  next
    case False
    with 1 show ?thesis by (subst digits_of.simps) (simp add: digit_char_props)
  qed
qed

lemma digits_of_nonempty: "digits_of n \<noteq> []"
  by (subst digits_of.simps) simp

lemma digits_val_snoc: "digits_val (xs @ [c]) = 10 * digits_val xs + digit_val c"
  by (simp add: digits_val_def)

lemma digits_val_digits_of: "digits_val (digits_of n) = n"
proof (induction n rule: digits_of.induct)
  case (1 n)
  show ?case
  proof (cases "n < 10")
    case True
    then show ?thesis
      by (subst digits_of.simps) (simp add: digits_val_def digit_char_props)
  next
    case False
    with 1 have "digits_val (digits_of (n div 10)) = n div 10" by simp
    with False show ?thesis
      by (subst digits_of.simps) (simp add: digits_val_snoc digit_char_props)
  qed
qed

lemma is_digit_plain:
  assumes "is_digit c"
  shows "\<not> py_isspace c" "c \<noteq> CHR ''_''" "c \<noteq> CHR ''-''" "c \<noteq> CHR ''+''"
  using assms by (auto simp: is_digit_def py_isspace_def)

lemma py_strip_id:
  assumes "s \<noteq> []" "\<not> py_isspace (hd s)" "\<not> py_isspace (last s)"
  shows "py_strip s = s"
proof -
  from assms have 1: "dropWhile py_isspace s = s"
    by (cases s) auto
  from assms have 2: "dropWhile py_isspace (rev s) = rev s"
    by (cases "rev s") (auto simp: hd_rev)
  show ?thesis by (simp add: py_strip_def 1 2)
qed

lemma strip_underscores_id:
  "CHR ''_'' \<notin> set s \<Longrightarrow> prev \<noteq> CHR ''_'' \<Longrightarrow> strip_underscores prev s = Some s"
  by (induction s arbitrary: prev) auto

lemma digits_plain:
  assumes "list_all is_digit ds"
  shows "CHR ''_'' \<notin> set ds" "\<forall>c \<in> set ds. \<not> py_isspace c"
  using assms is_digit_plain(1,2) by (auto simp: list_all_iff)

lemma py_int_str_str_int: "py_int_str (str_int a) = Inr a"
proof -
  define ds where "ds = digits_of (nat \<bar>a\<bar>)"
  have dig: "list_all is_digit ds" unfolding ds_def by (rule digits_of_all_digits)
  have ne: "ds \<noteq> []" unfolding ds_def by (rule digits_of_nonempty)
  have val: "int (digits_val ds) = \<bar>a\<bar>" unfolding ds_def by (simp add: digits_val_digits_of)
  from dig ne have hd: "is_digit (hd ds)" and la: "is_digit (last ds)"
    by (auto simp: list_all_iff)
  have nu: "CHR ''_'' \<notin> set ds" by (rule digits_plain(1)[OF dig])
  show ?thesis
  proof (cases "a < 0")
    case True
    then have s: "str_int a = CHR ''-'' # ds" by (simp add: str_int_def ds_def)
    have "\<not> py_isspace (CHR ''-'')" by (simp add: py_isspace_def)
    moreover have "\<not> py_isspace (last (CHR ''-'' # ds))"
      using ne is_digit_plain(1)[OF la] by simp
    ultimately have st: "py_strip (CHR ''-'' # ds) = CHR ''-'' # ds"
      by (intro py_strip_id) simp_all
    have su: "strip_underscores (CHR 0x00) (CHR ''-'' # ds) = Some (CHR ''-'' # ds)"
      using nu by (intro strip_underscores_id) auto
    have sg: "split_sign (CHR ''-'' # ds) = (True, ds)" by (simp add: split_sign_def)
    from True val ne dig show ?thesis
      unfolding py_int_str_def s st su by (simp add: sg)
  next
    case False
    then have s: "str_int a = ds" by (simp add: str_int_def ds_def)
    have st: "py_strip ds = ds"
      using ne is_digit_plain(1)[OF hd] is_digit_plain(1)[OF la] by (intro py_strip_id)
    have su: "strip_underscores (CHR 0x00) ds = Some ds"
      using nu by (intro strip_underscores_id) auto
    have sg: "split_sign ds = (False, ds)"
      using ne is_digit_plain(3,4)[OF hd] by (cases ds) (auto simp: split_sign_def)
    from False val ne dig show ?thesis
      unfolding py_int_str_def s st su by (simp add: sg)
  qed
qed

lemma digit_string_digits_of: "digit_string (digits_of n)"
  by (simp add: digit_string_def digits_of_nonempty digits_of_all_digits)

lemma is_digit_zero: "is_digit (CHR ''0'')"
  by (simp add: is_digit_def)

lemma zeros_all_digits: "list_all is_digit (replicate n (CHR ''0''))"
  by (simp add: list_all_iff is_digit_zero)

lemma digit_string_strip_zeros:
  assumes "digit_string ds"
  shows "digit_string (strip_zeros ds)"
proof -
  have "set (rev (dropWhile (\<lambda>c. c = CHR ''0'') (rev ds))) \<subseteq> set ds"
    using set_dropWhileD by fastforce
  with assms show ?thesis
    by (auto simp: digit_string_def strip_zeros_def Let_def list_all_iff is_digit_zero)
qed

lemma digit_string_shortest:
  "shortest_digits m e = (ds, decpt) \<Longrightarrow> digit_string ds"
  by (auto simp: shortest_digits_def Let_def digit_string_strip_zeros digit_string_digits_of
           split: option.splits)

lemma span_digits:
  assumes "list_all is_digit ip" "rest = [] \<or> \<not> is_digit (hd rest)"
  shows "takeWhile is_digit (ip @ rest) = ip" "dropWhile is_digit (ip @ rest) = rest"
proof -
  from assms(2) have t: "takeWhile is_digit rest = []" and d: "dropWhile is_digit rest = rest"
    by (cases rest; auto)+
  from assms(1) have a: "\<And>x. x \<in> set ip \<Longrightarrow> is_digit x" by (simp add: list_all_iff)
  show "takeWhile is_digit (ip @ rest) = ip"
    using takeWhile_append2[of ip is_digit rest] a t by simp
  show "dropWhile is_digit (ip @ rest) = rest"
    using dropWhile_append2[of ip is_digit rest] a d by simp
qed

lemma not_digit_chars: "\<not> is_digit (CHR ''.'')" "\<not> is_digit (CHR ''e'')"
  "\<not> is_digit (CHR ''-'')" "\<not> is_digit (CHR ''+'')"
  by (simp_all add: is_digit_def)

lemma exponent_part_parse: "exponent_part ex \<Longrightarrow> parse_exponent ex \<noteq> None"
  by (auto simp: exponent_part_def parse_exponent_def split_sign_def digit_string_def)

lemma exponent_part_hd: "exponent_part ex \<Longrightarrow> ex = [] \<or> (\<not> is_digit (hd ex) \<and> hd ex \<noteq> CHR ''.'')"
  by (auto simp: exponent_part_def not_digit_chars)

lemma parse_decimal_with_dot:
  assumes "list_all is_digit ip" "list_all is_digit fp" "ip \<noteq> [] \<or> fp \<noteq> []" "exponent_part ex"
  shows "parse_decimal neg (ip @ CHR ''.'' # fp @ ex) \<noteq> None"
proof -
  have 1: "takeWhile is_digit (ip @ CHR ''.'' # fp @ ex) = ip"
          "dropWhile is_digit (ip @ CHR ''.'' # fp @ ex) = CHR ''.'' # fp @ ex"
    using span_digits[OF assms(1), of "CHR ''.'' # fp @ ex"] by (simp_all add: not_digit_chars)
  have 2: "takeWhile is_digit (fp @ ex) = fp" "dropWhile is_digit (fp @ ex) = ex"
    using span_digits[OF assms(2), of ex] exponent_part_hd[OF assms(4)] by auto
  from exponent_part_parse[OF assms(4)] obtain x where x: "parse_exponent ex = Some x" by auto
  show ?thesis
    using assms(3) by (simp add: parse_decimal_def 1 2 x Let_def)
qed

lemma parse_decimal_no_dot:
  assumes "list_all is_digit ip" "ip \<noteq> []" "exponent_part ex"
  shows "parse_decimal neg (ip @ ex) \<noteq> None"
proof -
  have 1: "takeWhile is_digit (ip @ ex) = ip" "dropWhile is_digit (ip @ ex) = ex"
    using span_digits[OF assms(1), of ex] exponent_part_hd[OF assms(3)] by auto
  from exponent_part_parse[OF assms(3)] obtain x where x: "parse_exponent ex = Some x" by auto
  have nd: "(case ex of [] \<Rightarrow> False | c # cs \<Rightarrow> c = CHR ''.'') = False"
    using exponent_part_hd[OF assms(3)] by (cases ex) auto
  show ?thesis
    using assms(2) by (simp add: parse_decimal_def 1 x nd Let_def)
qed

lemma format_exp_shape:
  "\<exists>sg dd. format_exp x = sg # dd \<and> (sg = CHR ''-'' \<or> sg = CHR ''+'') \<and> digit_string dd"
proof -
  define d0 where "d0 = digits_of (nat \<bar>x\<bar>)"
  have d: "digit_string d0" unfolding d0_def by (rule digit_string_digits_of)
  have f: "format_exp x =
             (if x < 0 then CHR ''-'' else CHR ''+'') # (if length d0 < 2 then CHR ''0'' # d0 else d0)"
    unfolding format_exp_def d0_def Let_def ..
  from d have "digit_string (if length d0 < 2 then CHR ''0'' # d0 else d0)"
    by (simp add: digit_string_def is_digit_zero)
  with f show ?thesis by auto
qed

lemma exponent_part_format_exp: "exponent_part (CHR ''e'' # format_exp x)"
  using format_exp_shape[of x] by (auto simp: exponent_part_def)

lemma digit_string_parts:
  assumes "digit_string ds"
  shows "is_digit (hd ds)" "is_digit (last ds)" "CHR ''_'' \<notin> set ds"
    "list_all is_digit (take n ds)" "list_all is_digit (drop n ds)"
  using assms is_digit_plain(2)
  by (auto simp: digit_string_def list_all_iff dest: in_set_takeD in_set_dropD)

lemma last_exponent: "is_digit (last (CHR ''e'' # format_exp x))"
proof -
  from format_exp_shape[of x] obtain sg dd where
    f: "format_exp x = sg # dd" and d: "digit_string dd" by blast
  from d have "dd \<noteq> []" by (simp add: digit_string_def)
  with digit_string_parts(2)[OF d] show ?thesis by (simp add: f)
qed

lemma no_underscore_exponent: "CHR ''_'' \<notin> set (CHR ''e'' # format_exp x)"
proof -
  from format_exp_shape[of x] obtain sg dd where
    f: "format_exp x = sg # dd" and sg: "sg = CHR ''-'' \<or> sg = CHR ''+''" and d: "digit_string dd"
    by blast
  with digit_string_parts(3)[OF d] show ?thesis by (auto simp: f)
qed

lemma float_body_format_repr:
  assumes ds: "digit_string ds"
  shows "float_body (format_repr ds decpt)"
proof -
  note p = digit_string_parts[OF ds]
  from ds have ne: "ds \<noteq> []" and all: "list_all is_digit ds" by (simp_all add: digit_string_def)
  let ?ex = "CHR ''e'' # format_exp (decpt - 1)"
  consider (exp1) "decpt \<le> - 4 \<or> 16 < decpt" "length ds = 1"
    | (exp2) "decpt \<le> - 4 \<or> 16 < decpt" "length ds \<noteq> 1"
    | (small) "\<not> (decpt \<le> - 4 \<or> 16 < decpt)" "decpt \<le> 0"
    | (whole) "\<not> (decpt \<le> - 4 \<or> 16 < decpt)" "\<not> decpt \<le> 0" "int (length ds) \<le> decpt"
    | (mixed) "\<not> (decpt \<le> - 4 \<or> 16 < decpt)" "\<not> decpt \<le> 0" "\<not> int (length ds) \<le> decpt"
    by blast
  then show ?thesis
  proof cases
    case exp1
    then have f: "format_repr ds decpt = ds @ ?ex" by (simp add: format_repr_def)
    have "parse_decimal neg (ds @ ?ex) \<noteq> None" for neg
      by (rule parse_decimal_no_dot[OF all ne exponent_part_format_exp])
    then show ?thesis
      unfolding float_body_def f using ne p(1,3) last_exponent no_underscore_exponent
      by (simp add: hd_append)
  next
    case exp2
    then have f: "format_repr ds decpt = take 1 ds @ CHR ''.'' # drop 1 ds @ ?ex"
      by (simp add: format_repr_def)
    have t: "take 1 ds \<noteq> []" using ne by simp
    have "parse_decimal neg (take 1 ds @ CHR ''.'' # drop 1 ds @ ?ex) \<noteq> None" for neg
      by (rule parse_decimal_with_dot[OF p(4) p(5) _ exponent_part_format_exp]) (simp add: ne)
    moreover have "CHR ''_'' \<notin> set (take 1 ds)" "CHR ''_'' \<notin> set (drop 1 ds)"
      using p(3) by (auto dest: in_set_takeD in_set_dropD)
    moreover have "hd (take 1 ds) = hd ds" using ne by (cases ds) auto
    ultimately show ?thesis
      unfolding float_body_def f using ne t p(1) last_exponent no_underscore_exponent
      by (simp add: hd_append)
  next
    case small
    let ?z = "replicate (nat (- decpt)) (CHR ''0'')"
    from small have f: "format_repr ds decpt = ''0'' @ CHR ''.'' # (?z @ ds) @ []"
      by (simp add: format_repr_def)
    have "parse_decimal neg (''0'' @ CHR ''.'' # (?z @ ds) @ []) \<noteq> None" for neg
      by (rule parse_decimal_with_dot) (simp_all add: is_digit_zero zeros_all_digits all exponent_part_def)
    then show ?thesis
      unfolding float_body_def f using ne p(2,3) by (simp add: is_digit_zero)
  next
    case whole
    let ?z = "replicate (nat decpt - length ds) (CHR ''0'')"
    from whole have f: "format_repr ds decpt = (ds @ ?z) @ CHR ''.'' # ''0'' @ []"
      by (simp add: format_repr_def)
    have "parse_decimal neg ((ds @ ?z) @ CHR ''.'' # ''0'' @ []) \<noteq> None" for neg
      by (rule parse_decimal_with_dot) (simp_all add: is_digit_zero zeros_all_digits all exponent_part_def)
    then show ?thesis
      unfolding float_body_def f using ne p(1,3) by (simp add: is_digit_zero hd_append)
  next
    case mixed
    let ?n = "nat decpt"
    from mixed have f: "format_repr ds decpt = take ?n ds @ CHR ''.'' # drop ?n ds @ []"
      by (simp add: format_repr_def)
    from mixed have n: "0 < ?n" "?n < length ds" by auto
    then have t: "take ?n ds \<noteq> []" and d: "drop ?n ds \<noteq> []" using ne by auto
    have "parse_decimal neg (take ?n ds @ CHR ''.'' # drop ?n ds @ []) \<noteq> None" for neg
      using t by (intro parse_decimal_with_dot[OF p(4) p(5)]) (simp_all add: exponent_part_def)
    moreover have "CHR ''_'' \<notin> set (take ?n ds)" "CHR ''_'' \<notin> set (drop ?n ds)"
      using p(3) by (auto dest: in_set_takeD in_set_dropD)
    moreover have "hd (take ?n ds) = hd ds" using n ne by (cases ds) (auto simp: take_Cons')
    moreover have "last (drop ?n ds) = last ds" using n by simp
    ultimately show ?thesis
      unfolding float_body_def f using ne n t d p(1,2) by (simp add: hd_append)
  qed
qed

lemma float_body_zero: "float_body ''0.0''"
proof -
  have "parse_decimal neg (''0'' @ CHR ''.'' # ''0'' @ []) \<noteq> None" for neg
    by (rule parse_decimal_with_dot) (simp_all add: is_digit_zero exponent_part_def)
  then show ?thesis
    by (simp add: float_body_def is_digit_zero)
qed

lemma py_float_str_body:
  assumes "float_body b"
  shows "\<exists>y. py_float_str ((if s then ''-'' else '''') @ b) = Inr y"
proof -
  from assms have ne: "b \<noteq> []" and hd: "is_digit (hd b)" and la: "is_digit (last b)"
    and nu: "CHR ''_'' \<notin> set b" and pd: "\<And>neg. parse_decimal neg b \<noteq> None"
    by (simp_all add: float_body_def)
  let ?t = "(if s then ''-'' else '''') @ b"
  have "\<not> py_isspace (CHR ''-'')" by (simp add: py_isspace_def)
  then have st: "py_strip ?t = ?t"
    using ne is_digit_plain(1)[OF hd] is_digit_plain(1)[OF la]
    by (intro py_strip_id) (auto simp: hd_append)
  have su: "strip_underscores (CHR 0x00) ?t = Some ?t"
    using nu by (intro strip_underscores_id) auto
  have sg: "split_sign ?t = (s, b)"
    using ne is_digit_plain(3,4)[OF hd] by (cases b) (auto simp: split_sign_def)
  from pd[of s] obtain x where x: "parse_decimal s b = Some x" by auto
  show ?thesis
    unfolding py_float_str_def st su by (simp add: sg x)
qed

lemma py_float_str_special:
  "py_float_str ''nan'' = Inr NaN" "py_float_str ''inf'' = Inr (Infinite False)"
  "py_float_str ''-inf'' = Inr (Infinite True)"
  by (simp_all add: py_float_str_def py_strip_def py_isspace_def is_digit_def split_sign_def
        to_lower_def)

lemma py_float_str_str_float: "\<exists>y. py_float_str (str_float x) = Inr y"
proof (cases x)
  case (Finite s m e)
  show ?thesis
  proof (cases "m = 0")
    case True
    with Finite py_float_str_body[OF float_body_zero, of s] show ?thesis
      by (simp add: str_float_def)
  next
    case False
    obtain ds decpt where sd: "shortest_digits m e = (ds, decpt)" by (cases "shortest_digits m e")
    from py_float_str_body[OF float_body_format_repr[OF digit_string_shortest[OF sd]], of s decpt]
    show ?thesis using Finite False by (simp add: str_float_def sd)
  qed
next
  case (Infinite s)
  then show ?thesis by (cases s) (simp_all add: str_float_def py_float_str_special)
next
  case NaN
  then show ?thesis by (simp add: str_float_def py_float_str_special)
qed

section \<open>Evaluating floats\<close>

lemmas to_double_eval =
  to_double_def ilog2_def ratio_ge_pow2_def bit_length.simps round_half_even_def Let_def

lemmas float_parse_eval =
  py_float_str_def py_strip_def split_sign_def parse_decimal_def parse_exponent_def
  dec_num_def dec_den_def char_eval

lemma replicate_zeros:
  "replicate 2 (CHR ''0'') = ''00''" "replicate 3 (CHR ''0'') = ''000''"
  by (simp_all add: numeral_2_eq_2 numeral_3_eq_3)

lemma float_of_0_5: "py_float_str ''0.5'' = Inr (Finite False 4503599627370496 (- 53))"
proof -
  have "to_double False 5 10 = Finite False 4503599627370496 (- 53)"
    by (simp add: to_double_eval)
  then show ?thesis by (simp add: float_parse_eval)
qed











lemma float_of_0_0004: "py_float_str ''0.0004'' = Inr (Finite False 7378697629483821 (- 64))"
proof -
  have "to_double False 4 10000 = Finite False 7378697629483821 (- 64)"
    by (simp add: to_double_eval)
  then show ?thesis by (simp add: float_parse_eval)
qed

lemma float_of_1_0: "py_float_str ''1.0'' = Inr (Finite False 4503599627370496 (- 52))"
proof -
  have "to_double False 10 10 = Finite False 4503599627370496 (- 52)"
    by (simp add: to_double_eval)
  then show ?thesis by (simp add: float_parse_eval)
qed

lemma float_of_0_001: "py_float_str ''0.001'' = Inr (Finite False 4611686018427388 (- 62))"
proof -
  have "to_double False 1 1000 = Finite False 4611686018427388 (- 62)"
    by (simp add: to_double_eval)
  then show ?thesis by (simp add: float_parse_eval)
qed

lemma str_0_0004_ilog10: "ilog10 7378697629483821 18446744073709551616 = (- 4)"
  by (simp add: ilog10_def dec_up.simps dec_down.simps)

lemma str_0_0004_candidate_1:
  "candidate 7378697629483821 (- 64) 7378697629483821 18446744073709551616 (Suc 0) = Some (4, (- 4))"
  by (simp add: candidate_def str_0_0004_ilog10 dec_num_def dec_den_def to_double_eval)

lemma str_0_0004: "str_float (Finite False 7378697629483821 (- 64)) = ''0.0004''"
proof -
  have "shortest_digits 7378697629483821 (- 64) = (''4'', (- 3))"
    by (simp add: shortest_digits_def str_0_0004_candidate_1
          strip_zeros_def digits_of.simps digit_chars)
  then show ?thesis by (simp add: str_float_def format_repr_def replicate_zeros)
qed

lemma str_1_0_ilog10: "ilog10 4503599627370496 4503599627370496 = 0"
  by (simp add: ilog10_def dec_up.simps dec_down.simps)

lemma str_1_0_candidate_1:
  "candidate 4503599627370496 (- 52) 4503599627370496 4503599627370496 (Suc 0) = Some (1, 0)"
  by (simp add: candidate_def str_1_0_ilog10 dec_num_def dec_den_def to_double_eval)

lemma str_1_0: "str_float (Finite False 4503599627370496 (- 52)) = ''1.0''"
proof -
  have "shortest_digits 4503599627370496 (- 52) = (''1'', 1)"
    by (simp add: shortest_digits_def str_1_0_candidate_1
          strip_zeros_def digits_of.simps digit_chars)
  then show ?thesis by (simp add: str_float_def format_repr_def replicate_zeros)
qed

lemma float_add_0_0004_0_0004:
  "float_add (Finite False 7378697629483821 (- 64)) (Finite False 7378697629483821 (- 64)) =
     Finite False 7378697629483821 (- 63)"
  by (simp add: float_add_def to_double_eval)

lemma round_0_0008:
  "py_round3 (Finite False 7378697629483821 (- 63)) =
     Finite False 4611686018427388 (- 62)"
  by (simp add: py_round3_def to_double_eval)

lemma str_0_001_ilog10: "ilog10 4611686018427388 4611686018427387904 = (- 3)"
  by (simp add: ilog10_def dec_up.simps dec_down.simps)

lemma str_0_001_candidate_1:
  "candidate 4611686018427388 (- 62) 4611686018427388 4611686018427387904 (Suc 0) = Some (1, (- 3))"
  by (simp add: candidate_def str_0_001_ilog10 dec_num_def dec_den_def to_double_eval)

lemma str_0_001: "str_float (Finite False 4611686018427388 (- 62)) = ''0.001''"
proof -
  have "shortest_digits 4611686018427388 (- 62) = (''1'', (- 2))"
    by (simp add: shortest_digits_def str_0_001_candidate_1
          strip_zeros_def digits_of.simps digit_chars)
  then show ?thesis by (simp add: str_float_def format_repr_def replicate_zeros)
qed

lemma float_add_0_001_1_0:
  "float_add (Finite False 4611686018427388 (- 62)) (Finite False 4503599627370496 (- 52)) =
     Finite False 4508103226997866 (- 52)"
  by (simp add: float_add_def to_double_eval)

lemma round_1_001:
  "py_round3 (Finite False 4508103226997866 (- 52)) =
     Finite False 4508103226997866 (- 52)"
  by (simp add: py_round3_def to_double_eval)

lemma str_1_001_ilog10: "ilog10 4508103226997866 4503599627370496 = 0"
  by (simp add: ilog10_def dec_up.simps dec_down.simps)

lemma str_1_001_candidate_1:
  "candidate 4508103226997866 (- 52) 4508103226997866 4503599627370496 (Suc 0) = None"
  by (simp add: candidate_def str_1_001_ilog10 dec_num_def dec_den_def to_double_eval)

lemma str_1_001_candidate_2:
  "candidate 4508103226997866 (- 52) 4508103226997866 4503599627370496 2 = None"
  by (simp add: candidate_def str_1_001_ilog10 dec_num_def dec_den_def to_double_eval)

lemma str_1_001_candidate_3:
  "candidate 4508103226997866 (- 52) 4508103226997866 4503599627370496 3 = None"
  by (simp add: candidate_def str_1_001_ilog10 dec_num_def dec_den_def to_double_eval)

lemma str_1_001_candidate_4:
  "candidate 4508103226997866 (- 52) 4508103226997866 4503599627370496 4 = Some (1001, (- 3))"
  by (simp add: candidate_def str_1_001_ilog10 dec_num_def dec_den_def to_double_eval)

lemma str_1_001: "str_float (Finite False 4508103226997866 (- 52)) = ''1.001''"
proof -
  have "shortest_digits 4508103226997866 (- 52) = (''1001'', 1)"
    by (simp add: shortest_digits_def str_1_001_candidate_1 str_1_001_candidate_2 str_1_001_candidate_3 str_1_001_candidate_4
          strip_zeros_def digits_of.simps digit_chars)
  then show ?thesis by (simp add: str_float_def format_repr_def replicate_zeros)
qed

lemma float_add_1_0_0_0004:
  "float_add (Finite False 4503599627370496 (- 52)) (Finite False 7378697629483821 (- 64)) =
     Finite False 4505401067221444 (- 52)"
  by (simp add: float_add_def to_double_eval)

lemma round_1_0004:
  "py_round3 (Finite False 4505401067221444 (- 52)) =
     Finite False 4503599627370496 (- 52)"
  by (simp add: py_round3_def to_double_eval)

lemma bit_length_bounds: "2 ^ k \<le> n \<Longrightarrow> n < 2 ^ Suc k \<Longrightarrow> bit_length n = Suc k"
proof (induction k arbitrary: n)
  case 0
  then have "n = 1" by simp
  then show ?case by (simp add: bit_length.simps)
next
  case (Suc k)
  from Suc.prems have "2 ^ k \<le> n div 2" "n div 2 < 2 ^ Suc k" by auto
  then have "bit_length (n div 2) = Suc k" by (rule Suc.IH)
  moreover from Suc.prems have "n \<noteq> 0" by auto
  ultimately show ?case by (subst bit_length.simps) simp
qed

lemma round_half_even_exact: "0 < d \<Longrightarrow> round_half_even (m * d) d = m"
  by (simp add: round_half_even_def)

lemma to_double_exact:
  assumes m: "2 ^ 52 \<le> m" "m < 2 ^ 53" and e: "- 1074 \<le> e" "e \<le> 971"
    and ke: "int k = e + int c"
  shows "to_double False (m * 2 ^ k) (2 ^ c) = Finite False m e"
proof -
  have "2 ^ (52 + k) \<le> m * 2 ^ k" using m(1) by (simp add: power_add)
  moreover have "m * 2 ^ k < 2 ^ Suc (52 + k)"
  proof -
    have "m * 2 ^ k < 2 ^ 53 * 2 ^ k" using m(2) by simp
    also have "\<dots> = 2 ^ Suc (52 + k)" by (simp add: power_add)
    finally show ?thesis .
  qed
  ultimately have bn: "bit_length (m * 2 ^ k) = Suc (52 + k)" by (rule bit_length_bounds)
  have bd: "bit_length ((2::nat) ^ c) = Suc c" by (rule bit_length_bounds) simp_all
  have e0: "int (bit_length (m * 2 ^ k)) - int (bit_length ((2::nat) ^ c)) = e + 52"
    unfolding bn bd using ke by simp
  have ge: "ratio_ge_pow2 (m * 2 ^ k) (2 ^ c) (e + 52)"
  proof (cases "0 \<le> e + 52")
    case True
    have "c + nat (e + 52) = 52 + k" using True ke by simp
    then have "(2::nat) ^ c * 2 ^ nat (e + 52) = 2 ^ 52 * 2 ^ k"
      by (simp only: power_add[symmetric])
    also have "\<dots> \<le> m * 2 ^ k" using m(1) by simp
    finally show ?thesis using True by (simp add: ratio_ge_pow2_def)
  next
    case False
    have "52 + (k + nat (- (e + 52))) = c" using False ke by simp
    then have "(2::nat) ^ c = 2 ^ 52 * (2 ^ k * 2 ^ nat (- (e + 52)))"
      by (simp only: power_add[symmetric])
    also have "\<dots> \<le> m * (2 ^ k * 2 ^ nat (- (e + 52)))" using m(1) by simp
    finally show ?thesis using False by (simp add: ratio_ge_pow2_def mult.assoc)
  qed
  have il: "ilog2 (m * 2 ^ k) (2 ^ c) = e + 52"
    unfolding ilog2_def Let_def e0 using ge by simp
  have rnd: "(if e < 0 then round_half_even (m * 2 ^ k * 2 ^ nat (- e)) (2 ^ c)
             else round_half_even (m * 2 ^ k) (2 ^ c * 2 ^ nat e)) = m"
  proof (cases "e < 0")
    case True
    have "k + nat (- e) = c" using True ke by simp
    then have eq: "m * 2 ^ k * 2 ^ nat (- e) = m * 2 ^ c"
      by (simp only: mult.assoc power_add[symmetric])
    have "round_half_even (m * 2 ^ c) (2 ^ c) = m" by (simp add: round_half_even_exact)
    then have "round_half_even (m * 2 ^ k * 2 ^ nat (- e)) (2 ^ c) = m" by (simp only: eq)
    with True show ?thesis by (simp only: if_True)
  next
    case False
    have "c + nat e = k" using False ke by simp
    then have "(2::nat) ^ c * 2 ^ nat e = 2 ^ k" by (simp only: power_add[symmetric])
    with False show ?thesis by (simp add: round_half_even_exact)
  qed
  have nz: "m * 2 ^ k \<noteq> 0" using m(1) by auto
  have mx: "max (e + 52 - 52) (- 1074) = e" using e by simp
  show ?thesis
    unfolding to_double_def Let_def il mx rnd using nz m(2) e(2) by simp
qed

lemma float_add_zero_left:
  assumes "2 ^ 52 \<le> m" "m < 2 ^ 53" "- 1074 \<le> e" "e \<le> 971"
  shows "float_add (Finite False 0 (- 1074)) (Finite False m e) = Finite False m e"
proof -
  define k where "k = nat (e + 1074)"
  have ke: "int k = e + int 1074" using assms(3) by (simp add: k_def)
  have mn: "min (- 1074) e = - 1074" using assms(3) by simp
  have pos: "0 < m" using assms(1) by (rule less_le_trans[rotated]) simp
  have "float_add (Finite False 0 (- 1074)) (Finite False m e) =
        to_double False (m * 2 ^ k) (2 ^ 1074)"
    using pos by (simp add: float_add_def Let_def mn k_def nat_mult_distrib nat_power_eq
        abs_mult mult_less_0_iff flip: of_nat_mult of_nat_power)
  also have "\<dots> = Finite False m e"
    by (rule to_double_exact[OF assms ke])
  finally show ?thesis .
qed

section \<open>Properties of the summary of one document\<close>

lemma counting_int_at:
  assumes "counting d" "d \<noteq> []" "k \<in> set int_fields"
  shows "map_of d k = Some (PInt (int_at d k))"
proof -
  from assms obtain n where "map_of d k = Some (PInt n)"
    unfolding counting_def by blast
  then show ?thesis by (simp add: int_at_def)
qed

lemma counting_start:
  assumes "counting d" "k \<in> set int_fields"
  shows "(case map_of d k of None \<Rightarrow> PInt 0 | Some c \<Rightarrow> c) = PInt (int_at d k)"
proof (cases "d = []")
  case True
  then show ?thesis by (simp add: int_at_def)
next
  case False
  from counting_int_at[OF assms(1) False assms(2)] show ?thesis by simp
qed

lemma counting_time:
  assumes "counting d"
  shows "\<exists>x. py_add (case map_of d ''time'' of None \<Rightarrow> PInt 0 | Some c \<Rightarrow> c) (PFloat t) = PFloat x"
proof (cases "d = []")
  case True
  then show ?thesis by simp
next
  case False
  with assms obtain x where "map_of d ''time'' = Some (PFloat x)"
    unfolding counting_def by blast
  then show ?thesis by simp
qed

lemma map_of_incr:
  "map_of (incr k v d) = (map_of d)(k \<mapsto> py_add (case map_of d k of None \<Rightarrow> PInt 0 | Some c \<Rightarrow> c) v)"
  by (simp add: incr_def AList.update_conv')

lemma count_case_eq:
  assumes "map_of c ''result'' = Some r" "map_of c ''error'' = Some (PBool b)"
    "map_of c ''time'' = Some tv" "py_float_val tv = Inr t"
  shows "count_case c acc =
    Inr (incr ''xfails''
           (of_flag (r = PStr ''xfail_failure'' \<or> r = PStr ''xfail_error'' \<or>
                     r = PStr ''xfail_skipped'' \<or> r = PStr ''xfail_success''))
        (incr ''time'' (PFloat t)
        (incr ''errors'' (of_flag b)
        (incr ''skipped'' (of_flag (r = PStr ''skipped''))
        (incr ''failures'' (of_flag (r = PStr ''failure'' \<or> r = PStr ''error''))
        (incr ''tests'' (PInt 1) acc))))))"
  using assms by (simp add: count_case_def getitem_def Let_def)

lemma count_case_inputs:
  assumes "count_case c acc = Inr acc'"
  shows "\<exists>r b tv t. map_of c ''result'' = Some r \<and> map_of c ''error'' = Some (PBool b) \<and>
           map_of c ''time'' = Some tv \<and> py_float_val tv = Inr t"
proof -
  from assms obtain r where r: "map_of c ''result'' = Some r"
    by (cases "map_of c ''result''") (simp_all add: count_case_def getitem_def Let_def)
  from assms r obtain ev where ev: "map_of c ''error'' = Some ev"
    by (cases "map_of c ''error''") (simp_all add: count_case_def getitem_def Let_def)
  from assms r ev obtain b where b: "ev = PBool b"
    by (cases ev) (simp_all add: count_case_def getitem_def Let_def)
  from assms r ev b obtain tv where tv: "map_of c ''time'' = Some tv"
    by (cases "map_of c ''time''") (simp_all add: count_case_def getitem_def Let_def)
  from assms r ev b tv obtain t where "py_float_val tv = Inr t"
    by (cases "py_float_val tv") (simp_all add: count_case_def getitem_def Let_def)
  with r ev b tv show ?thesis by simp
qed

lemma count_case_step:
  assumes "counting acc" "count_case c acc = Inr acc'"
  shows "counting acc' \<and> acc' \<noteq> [] \<and>
         int_at acc' ''failures'' = int_at acc ''failures'' + (if is_failure c then 1 else 0) \<and>
         int_at acc' ''skipped'' = int_at acc ''skipped'' + (if is_skipped c then 1 else 0) \<and>
         int_at acc' ''errors'' = int_at acc ''errors'' + (if has_error c then 1 else 0)"
proof -
  from count_case_inputs[OF assms(2)] obtain r b tv t where
    r: "map_of c ''result'' = Some r" and b: "map_of c ''error'' = Some (PBool b)" and
    tv: "map_of c ''time'' = Some tv" and t: "py_float_val tv = Inr t"
    by blast
  from counting_time[OF assms(1), of t] obtain x where
    x: "py_add (case map_of acc ''time'' of None \<Rightarrow> PInt 0 | Some c \<Rightarrow> c) (PFloat t) = PFloat x" ..
  have k: "''tests'' \<in> set int_fields" "''failures'' \<in> set int_fields"
    "''skipped'' \<in> set int_fields" "''errors'' \<in> set int_fields" "''xfails'' \<in> set int_fields"
    by (simp_all add: int_fields_def)
  note st = k[THEN counting_start[OF assms(1)]]
  from assms(2) have acc': "acc' =
        incr ''xfails''
           (of_flag (r = PStr ''xfail_failure'' \<or> r = PStr ''xfail_error'' \<or>
                     r = PStr ''xfail_skipped'' \<or> r = PStr ''xfail_success''))
        (incr ''time'' (PFloat t)
        (incr ''errors'' (of_flag b)
        (incr ''skipped'' (of_flag (r = PStr ''skipped''))
        (incr ''failures'' (of_flag (r = PStr ''failure'' \<or> r = PStr ''error''))
        (incr ''tests'' (PInt 1) acc)))))"
    by (simp add: count_case_eq[OF r b tv t])
  have m: "map_of acc' = (map_of acc)
      (''tests'' \<mapsto> PInt (int_at acc ''tests'' + 1),
       ''failures'' \<mapsto> PInt (int_at acc ''failures'' + (if is_failure c then 1 else 0)),
       ''skipped'' \<mapsto> PInt (int_at acc ''skipped'' + (if is_skipped c then 1 else 0)),
       ''errors'' \<mapsto> PInt (int_at acc ''errors'' + (if has_error c then 1 else 0)),
       ''time'' \<mapsto> PFloat x,
       ''xfails'' \<mapsto> PInt (int_at acc ''xfails'' +
           (if r = PStr ''xfail_failure'' \<or> r = PStr ''xfail_error'' \<or>
               r = PStr ''xfail_skipped'' \<or> r = PStr ''xfail_success'' then 1 else 0)))"
    unfolding acc'
    by (simp add: map_of_incr st x of_flag_def is_failure_def is_skipped_def has_error_def r b)
  have ne: "acc' \<noteq> []"
  proof
    assume "acc' = []"
    then have "map_of acc' ''tests'' = None" by simp
    with m show False by simp
  qed
  have "counting acc'"
    unfolding counting_def int_fields_def by (simp add: m)
  with ne show ?thesis
    by (simp add: int_at_def m)
qed

lemma count_cases_steps:
  assumes "counting acc" "count_cases cs acc = Inr acc'"
  shows "counting acc' \<and> (acc' = [] \<longleftrightarrow> acc = [] \<and> cs = []) \<and>
         int_at acc' ''failures'' = int_at acc ''failures'' + count_of is_failure cs \<and>
         int_at acc' ''skipped'' = int_at acc ''skipped'' + count_of is_skipped cs \<and>
         int_at acc' ''errors'' = int_at acc ''errors'' + count_of has_error cs"
  using assms
proof (induction cs arbitrary: acc)
  case Nil
  then show ?case by (simp add: count_of_def)
next
  case (Cons c cs)
  from Cons.prems(2) obtain acc1 where
    1: "count_case c acc = Inr acc1" and 2: "count_cases cs acc1 = Inr acc'"
    by (auto split: sum.splits)
  note s = count_case_step[OF Cons.prems(1) 1]
  from s have c1: "counting acc1" by simp
  from Cons.IH[OF c1 2] s show ?case
    by (auto simp: count_of_def)
qed

lemma count_groups_steps:
  assumes "counting acc" "count_groups tcs acc = Inr acc'"
  shows "counting acc' \<and> (acc' = [] \<longleftrightarrow> acc = [] \<and> all_cases tcs = []) \<and>
         int_at acc' ''failures'' = int_at acc ''failures'' + count_of is_failure (all_cases tcs) \<and>
         int_at acc' ''skipped'' = int_at acc ''skipped'' + count_of is_skipped (all_cases tcs) \<and>
         int_at acc' ''errors'' = int_at acc ''errors'' + count_of has_error (all_cases tcs)"
  using assms
proof (induction tcs arbitrary: acc)
  case Nil
  then show ?case by (simp add: count_of_def all_cases_def)
next
  case (Cons g tcs)
  obtain feature cases where g: "g = (feature, cases)" by (cases g)
  from Cons.prems(2) g obtain acc1 where
    1: "count_cases cases acc = Inr acc1" and 2: "count_groups tcs acc1 = Inr acc'"
    by (auto split: sum.splits)
  note s = count_cases_steps[OF Cons.prems(1) 1]
  from s have c1: "counting acc1" by simp
  from Cons.IH[OF c1 2] s show ?case
    by (auto simp: count_of_def all_cases_def g)
qed

lemma map_of_py_str:
  "map_of (map (\<lambda>(k, v). (k, py_str v)) d) k = map_option py_str (map_of d k)"
  by (induction d) auto

lemma extract_counts:
  assumes "extract_test_summary tcs = Inr summary"
  shows "(all_cases tcs = [] \<longrightarrow> summary = []) \<and>
         (all_cases tcs \<noteq> [] \<longrightarrow>
            map_of summary ''failures'' = Some (str_int (count_of is_failure (all_cases tcs))) \<and>
            map_of summary ''skipped'' = Some (str_int (count_of is_skipped (all_cases tcs))) \<and>
            map_of summary ''errors'' = Some (str_int (count_of has_error (all_cases tcs))))"
proof -
  from assms obtain acc where
    a: "count_groups tcs [] = Inr acc" and
    s: "summary = map (\<lambda>(k, v). (k, py_str v)) acc"
    by (auto simp: extract_test_summary_def split: sum.splits)
  have c0: "counting []" by (simp add: counting_def)
  note st = count_groups_steps[OF c0 a]
  show ?thesis
  proof (cases "all_cases tcs = []")
    case True
    with st s show ?thesis by simp
  next
    case False
    with st have ne: "acc \<noteq> []" and c: "counting acc" by auto
    then obtain n2 n3 n4 where
      n: "map_of acc ''failures'' = Some (PInt n2)" "map_of acc ''skipped'' = Some (PInt n3)"
         "map_of acc ''errors'' = Some (PInt n4)"
      unfolding counting_def int_fields_def by (simp; metis)
    from st n have "n2 = count_of is_failure (all_cases tcs)"
      "n3 = count_of is_skipped (all_cases tcs)"
      "n4 = count_of has_error (all_cases tcs)"
      by (simp_all add: int_at_def)
    with n False show ?thesis
      by (simp add: s map_of_py_str)
  qed
qed

section \<open>Properties of the summary merge\<close>

lemma sum_attributes_map_of:
  assumes "distinct (map fst attrs)"
    and "\<forall>(k, ty) \<in> set attrs. merged ty current update k \<noteq> None"
  shows "\<exists>new. sum_attributes attrs current update acc = Inr new \<and>
           (\<forall>k. map_of new k =
                  (case map_of attrs k of
                     Some ty \<Rightarrow> merged ty current update k
                   | None \<Rightarrow> map_of acc k))"
  using assms
proof (induction attrs arbitrary: acc)
  case Nil
  then show ?case by simp
next
  case (Cons a attrs)
  obtain k ty where a: "a = (k, ty)" by (cases a)
  from Cons.prems a have d: "distinct (map fst attrs)" and kn: "map_of attrs k = None"
    and rest: "\<forall>(k, ty) \<in> set attrs. merged ty current update k \<noteq> None"
    and here: "merged ty current update k \<noteq> None"
    by (auto simp: map_of_eq_None_iff)
  from here obtain x y where
    x: "get_number ty current k = Inr x" and y: "get_number ty update k = Inr y"
    by (auto simp: merged_def split: sum.splits)
  define acc1 where "acc1 = AList.update k (py_str (py_round (py_add x y))) acc"
  from Cons.IH[OF d rest, of acc1] obtain new where
    n: "sum_attributes attrs current update acc1 = Inr new" and
    m: "\<forall>k'. map_of new k' =
              (case map_of attrs k' of Some ty \<Rightarrow> merged ty current update k' | None \<Rightarrow> map_of acc1 k')"
    by blast
  have s: "sum_attributes (a # attrs) current update acc = Inr new"
    by (simp add: a x y n[unfolded acc1_def])
  have "map_of new k' =
          (case map_of (a # attrs) k' of Some ty \<Rightarrow> merged ty current update k' | None \<Rightarrow> map_of acc k')"
    for k'
  proof (cases "k' = k")
    case True
    then show ?thesis
      using m kn by (simp add: a acc1_def AList.update_conv' merged_def x y)
  next
    case False
    then have "map_of acc1 k' = map_of acc k'"
      by (simp add: acc1_def AList.update_conv')
    with False show ?thesis
      using m by (simp add: a split: option.splits)
  qed
  with s show ?case by blast
qed

lemma update_test_summary_fields:
  assumes "current \<noteq> []"
    and "\<forall>(k, ty) \<in> set summary_attributes. merged ty current update k \<noteq> None"
  shows "\<exists>new. update_test_summary current update = Inr new \<and>
           (\<forall>k. map_of new k =
                  (case map_of summary_attributes k of
                     Some ty \<Rightarrow> merged ty current update k
                   | None \<Rightarrow> None))"
proof -
  have d1: "distinct (map fst REQUIRED_TESTSUITE_ATTRIBUTES)"
    by (simp add: REQUIRED_TESTSUITE_ATTRIBUTES_def)
  have d2: "distinct (map fst EXTRA_XML_SUMMARY_ATTRIBUTES)"
    by (simp add: EXTRA_XML_SUMMARY_ATTRIBUTES_def)
  from assms(2) have
    a1: "\<forall>(k, ty) \<in> set REQUIRED_TESTSUITE_ATTRIBUTES. merged ty current update k \<noteq> None" and
    a2: "\<forall>(k, ty) \<in> set EXTRA_XML_SUMMARY_ATTRIBUTES. merged ty current update k \<noteq> None"
    by (auto simp: summary_attributes_def)
  from sum_attributes_map_of[OF d1 a1, of "[]"] obtain n1 where
    n1: "sum_attributes REQUIRED_TESTSUITE_ATTRIBUTES current update [] = Inr n1" and
    m1: "\<forall>k. map_of n1 k =
              (case map_of REQUIRED_TESTSUITE_ATTRIBUTES k of
                 Some ty \<Rightarrow> merged ty current update k | None \<Rightarrow> map_of [] k)"
    by blast
  from sum_attributes_map_of[OF d2 a2, of n1] obtain n2 where
    n2: "sum_attributes EXTRA_XML_SUMMARY_ATTRIBUTES current update n1 = Inr n2" and
    m2: "\<forall>k. map_of n2 k =
              (case map_of EXTRA_XML_SUMMARY_ATTRIBUTES k of
                 Some ty \<Rightarrow> merged ty current update k | None \<Rightarrow> map_of n1 k)"
    by blast
  have u: "update_test_summary current update = Inr n2"
    using assms(1) by (simp add: update_test_summary_def n1 n2)
  have "map_of n2 k =
          (case map_of summary_attributes k of Some ty \<Rightarrow> merged ty current update k | None \<Rightarrow> None)"
    for k
    using m1 m2
    by (simp add: summary_attributes_def REQUIRED_TESTSUITE_ATTRIBUTES_def
          EXTRA_XML_SUMMARY_ATTRIBUTES_def)
  with u show ?thesis by blast
qed

lemma summary_attributes_lookup:
  "k \<in> set int_fields \<Longrightarrow> map_of summary_attributes k = Some TInt"
  "map_of summary_attributes ''time'' = Some TFloat"
  by (auto simp: int_fields_def summary_attributes_def REQUIRED_TESTSUITE_ATTRIBUTES_def
        EXTRA_XML_SUMMARY_ATTRIBUTES_def)

lemma summary_attributes_cases:
  "(k, ty) \<in> set summary_attributes \<Longrightarrow>
   (k \<in> set int_fields \<and> ty = TInt) \<or> (k = ''time'' \<and> ty = TFloat)"
  by (auto simp: int_fields_def summary_attributes_def REQUIRED_TESTSUITE_ATTRIBUTES_def
        EXTRA_XML_SUMMARY_ATTRIBUTES_def)

lemma get_number_str_int:
  "map_of d k = Some (str_int n) \<Longrightarrow> get_number TInt d k = Inr (PInt n)"
  by (simp add: get_number_def py_int_str_str_int)




lemma canonical_lookup:
  assumes "canonical s" "s \<noteq> []" "k \<in> set int_fields"
  shows "map_of s k = Some (str_int (cnt s k))"
proof -
  from assms obtain n where "map_of s k = Some (str_int n)"
    unfolding canonical_def by blast
  then show ?thesis by (simp add: cnt_def py_int_str_str_int)
qed

lemma cnt_empty: "cnt [] k = 0"
  by (simp add: cnt_def)

lemma canonical_time:
  assumes "canonical s" "s \<noteq> []"
  shows "\<exists>ct x. map_of s ''time'' = Some ct \<and> py_float_str ct = Inr x"
proof -
  from assms obtain t where "map_of s ''time'' = Some (str_float t)"
    unfolding canonical_def by blast
  with py_float_str_str_float[of t] show ?thesis by auto
qed

lemma canonical_merged:
  assumes "canonical current" "canonical update"
  shows "k \<in> set int_fields \<Longrightarrow>
           merged TInt current update k = Some (str_int (cnt current k + cnt update k))"
    and "\<exists>t. merged TFloat current update ''time'' = Some (str_float t)"
proof -
  have g: "get_number TInt s k = Inr (PInt (cnt s k))" if "canonical s" "k \<in> set int_fields" for s k
  proof (cases "s = []")
    case True
    then show ?thesis by (simp add: get_number_def cnt_def)
  next
    case False
    from canonical_lookup[OF that(1) False that(2)] show ?thesis
      by (rule get_number_str_int)
  qed
  show "merged TInt current update k = Some (str_int (cnt current k + cnt update k))"
    if "k \<in> set int_fields"
    using g[OF assms(1) that] g[OF assms(2) that] by (simp add: merged_def)
  have t: "\<exists>x. get_number TFloat s ''time'' = Inr (PFloat x)" if "canonical s" for s
  proof (cases "s = []")
    case True
    then show ?thesis by (simp add: get_number_def)
  next
    case False
    from canonical_time[OF that False] show ?thesis
      by (auto simp: get_number_def)
  qed
  from t[OF assms(1)] t[OF assms(2)]
  show "\<exists>t. merged TFloat current update ''time'' = Some (str_float t)"
    by (auto simp: merged_def)
qed

lemma merge_canonical:
  assumes "canonical current" "canonical update"
  shows "\<exists>new. update_test_summary current update = Inr new \<and> canonical new \<and>
           (new = [] \<longleftrightarrow> current = [] \<and> update = []) \<and>
           (\<forall>k \<in> set int_fields. cnt new k = cnt current k + cnt update k)"
proof (cases "current = []")
  case True
  then show ?thesis using assms(2) by (simp add: update_test_summary_def cnt_empty)
next
  case False
  note i = canonical_merged(1)[OF assms]
  from canonical_merged(2)[OF assms] obtain t where
    f: "merged TFloat current update ''time'' = Some (str_float t)" ..
  have "\<forall>(k, ty) \<in> set summary_attributes. merged ty current update k \<noteq> None"
    using summary_attributes_cases i f by fastforce
  from update_test_summary_fields[OF False this] obtain new where
    u: "update_test_summary current update = Inr new" and
    m: "\<And>k. map_of new k =
              (case map_of summary_attributes k of
                 Some ty \<Rightarrow> merged ty current update k | None \<Rightarrow> None)"
    by blast
  have mi: "map_of new k = Some (str_int (cnt current k + cnt update k))"
    if "k \<in> set int_fields" for k
    using that by (simp add: m summary_attributes_lookup i)
  have mt: "map_of new ''time'' = Some (str_float t)"
    by (simp add: m summary_attributes_lookup f)
  have ne: "new \<noteq> []"
  proof
    assume "new = []"
    then have "map_of new ''time'' = None" by simp
    with mt show False by simp
  qed
  have c: "canonical new"
    unfolding canonical_def using mi mt by blast
  have "\<forall>k \<in> set int_fields. cnt new k = cnt current k + cnt update k"
    using mi by (simp add: cnt_def py_int_str_str_int)
  with u c ne False show ?thesis by blast
qed

lemma fold_canonical:
  assumes "\<forall>s \<in> set ss. canonical s" "canonical current"
  shows "\<exists>r. fold_summaries ss current = Inr r \<and> canonical r \<and>
           (r = [] \<longleftrightarrow> current = [] \<and> (\<forall>s \<in> set ss. s = [])) \<and>
           (\<forall>k \<in> set int_fields. cnt r k = cnt current k + sum_list (map (\<lambda>s. cnt s k) ss))"
  using assms
proof (induction ss arbitrary: current)
  case Nil
  then show ?case by simp
next
  case (Cons s ss)
  from Cons.prems have cs: "canonical s" and rest: "\<forall>s \<in> set ss. canonical s" by auto
  from merge_canonical[OF Cons.prems(2) cs] obtain new where
    u: "update_test_summary current s = Inr new" and c: "canonical new" and
    e: "new = [] \<longleftrightarrow> current = [] \<and> s = []" and
    n: "\<forall>k \<in> set int_fields. cnt new k = cnt current k + cnt s k"
    by blast
  from Cons.IH[OF rest c] obtain r where
    f: "fold_summaries ss new = Inr r" and cr: "canonical r" and
    er: "r = [] \<longleftrightarrow> new = [] \<and> (\<forall>s \<in> set ss. s = [])" and
    nr: "\<forall>k \<in> set int_fields. cnt r k = cnt new k + sum_list (map (\<lambda>s. cnt s k) ss)"
    by blast
  have "fold_summaries (s # ss) current = Inr r" by (simp add: u f)
  moreover have "r = [] \<longleftrightarrow> current = [] \<and> (\<forall>s \<in> set (s # ss). s = [])"
    using e er by auto
  moreover have "\<forall>k \<in> set int_fields.
                   cnt r k = cnt current k + sum_list (map (\<lambda>s. cnt s k) (s # ss))"
    using n nr by simp
  ultimately show ?case using cr by blast
qed

lemma extract_canonical:
  assumes "extract_test_summary tcs = Inr s"
  shows "canonical s"
proof -
  from assms obtain acc where
    a: "count_groups tcs [] = Inr acc" and
    s: "s = map (\<lambda>(k, v). (k, py_str v)) acc"
    by (auto simp: extract_test_summary_def split: sum.splits)
  have c0: "counting []" by (simp add: counting_def)
  from count_groups_steps[OF c0 a] have c: "counting acc" by simp
  show ?thesis
  proof (cases "acc = []")
    case True
    then show ?thesis by (simp add: s canonical_def)
  next
    case False
    have "\<exists>n. map_of s k = Some (str_int n)" if "k \<in> set int_fields" for k
      using counting_int_at[OF c False that] by (auto simp: s map_of_py_str)
    moreover from c False obtain t where "map_of acc ''time'' = Some (PFloat t)"
      unfolding counting_def by blast
    then have "\<exists>t. map_of s ''time'' = Some (str_float t)"
      by (auto simp: s map_of_py_str)
    ultimately show ?thesis unfolding canonical_def by blast
  qed
qed

lemma fold_summaries_permutation:
  assumes "\<forall>s \<in> set ss. \<exists>tcs. extract_test_summary tcs = Inr s" and "mset ss' = mset ss"
  shows "\<exists>r r'. fold_summaries ss [] = Inr r \<and> fold_summaries ss' [] = Inr r' \<and>
           (\<forall>k \<in> set int_fields. map_of r k = map_of r' k)"
proof -
  from assms(2) have set_eq: "set ss' = set ss" by (rule mset_eq_setD)
  have c: "\<forall>s \<in> set ss. canonical s" using assms(1) extract_canonical by blast
  then have c': "\<forall>s \<in> set ss'. canonical s" by (simp add: set_eq)
  have c0: "canonical []" by (simp add: canonical_def)
  from fold_canonical[OF c c0] obtain r where
    f: "fold_summaries ss [] = Inr r" and cr: "canonical r" and
    er: "r = [] \<longleftrightarrow> (\<forall>s \<in> set ss. s = [])" and
    nr: "\<forall>k \<in> set int_fields. cnt r k = sum_list (map (\<lambda>s. cnt s k) ss)"
    by (auto simp: cnt_empty)
  from fold_canonical[OF c' c0] obtain r' where
    f': "fold_summaries ss' [] = Inr r'" and cr': "canonical r'" and
    er': "r' = [] \<longleftrightarrow> (\<forall>s \<in> set ss'. s = [])" and
    nr': "\<forall>k \<in> set int_fields. cnt r' k = sum_list (map (\<lambda>s. cnt s k) ss')"
    by (auto simp: cnt_empty)
  have sums: "sum_list (map g ss') = sum_list (map g ss)" for g :: "(string \<times> string) list \<Rightarrow> int"
  proof -
    have "mset (map g ss') = mset (map g ss)" using assms(2) by simp
    then show ?thesis by (metis sum_mset_sum_list)
  qed
  have "map_of r k = map_of r' k" if k: "k \<in> set int_fields" for k
  proof (cases "r = []")
    case True
    with er er' set_eq have "r' = []" by simp
    with True show ?thesis by simp
  next
    case False
    with er er' set_eq have ne': "r' \<noteq> []" by simp
    from nr nr' k sums have "cnt r k = cnt r' k" by simp
    with canonical_lookup[OF cr False k] canonical_lookup[OF cr' ne' k] show ?thesis by simp
  qed
  with f f' show ?thesis by blast
qed




end
